theory Spec2Isabelle
  imports Main "HOL-Library.Word"
begin

unbundle bit_operations_syntax

section \<open>The AT93C86A driver of \<open>spi_flash.c\<close>\<close>

text \<open>
  The driver runs on an RP2040 (32-bit ARM): \<open>int\<close> and \<open>size_t\<close> are 32 bits wide,
  \<open>uint8_t\<close>, \<open>uint16_t\<close> and \<open>uint32_t\<close> are the words below, and plain \<open>char\<close> is
  unsigned. C promotes every operand narrower than \<open>int\<close> to \<open>int\<close> before it shifts or
  masks; the promotions are written as \<open>ucast\<close> to a 32-bit word (no \<open>int\<close> value of
  the driver reaches bit 31, so signed and unsigned 32-bit arithmetic agree), and a
  conversion to a narrower type is a \<open>ucast\<close> to the narrower word, which truncates.
\<close>

type_synonym u8 = "8 word"
type_synonym u16 = "16 word"
type_synonym u32 = "32 word"

subsection \<open>Opcodes\<close>

definition EEPROM_CMD_READ :: u32 where
  "EEPROM_CMD_READ = 6"

definition EEPROM_CMD_WRITE :: u32 where
  "EEPROM_CMD_WRITE = 5"

definition EEPROM_CMD_ERASE :: u32 where
  "EEPROM_CMD_ERASE = 7"

definition EEPROM_CMD_WEN :: u32 where
  "EEPROM_CMD_WEN = 19"

definition EEPROM_CMD_WDS :: u32 where
  "EEPROM_CMD_WDS = 16"

subsection \<open>Command words and their byte buffers\<close>

text \<open>
  The initialiser \<open>{cmd >> 8, cmd & 0xFF}\<close> of a two-byte \<open>cmdbuf\<close>, for a
  \<open>uint16_t cmd\<close>.
\<close>

definition cmdbuf2 :: "u16 \<Rightarrow> u8 list" where
  "cmdbuf2 cmd = [ucast (drop_bit 8 (ucast cmd :: u32)), ucast ((ucast cmd :: u32) AND 0xFF)]"

text \<open>The four-byte \<open>cmdbuf\<close> of \<open>eeprom_write\<close>, for its \<open>uint32_t cmd\<close>.\<close>

definition cmdbuf4 :: "u32 \<Rightarrow> u8 list" where
  "cmdbuf4 cmd =
     [ucast (drop_bit 24 cmd AND 0xFF), ucast (drop_bit 16 cmd AND 0xFF),
      ucast (drop_bit 8 cmd AND 0xFF), ucast (cmd AND 0xFF)]"

text \<open>\<open>uint16_t cmd = EEPROM_CMD_WEN << 11\<close> and \<open>EEPROM_CMD_WDS << 11\<close>.\<close>

definition wen_cmd :: u16 where
  "wen_cmd = ucast (push_bit 11 EEPROM_CMD_WEN)"

definition wds_cmd :: u16 where
  "wds_cmd = ucast (push_bit 11 EEPROM_CMD_WDS)"

text \<open>\<open>uint16_t cmd = (EEPROM_CMD_READ << 10) | (addr & 0x03FF)\<close> in \<open>eeprom_read\<close>.\<close>

definition read_cmd :: "u16 \<Rightarrow> u16" where
  "read_cmd addr = ucast (push_bit 10 EEPROM_CMD_READ OR ((ucast addr :: u32) AND 0x03FF))"

text \<open>
  \<open>uint32_t cmd = ((uint32_t)EEPROM_CMD_WRITE << 26) | ((addr & 0x03FF) << 16) | (data & 0xFFFF)\<close>
  in \<open>eeprom_write\<close>.
\<close>

definition write_cmd :: "u16 \<Rightarrow> u16 \<Rightarrow> u32" where
  "write_cmd addr data =
     push_bit 26 EEPROM_CMD_WRITE OR push_bit 16 ((ucast addr :: u32) AND 0x03FF)
       OR ((ucast data :: u32) AND 0xFFFF)"

text \<open>
  \<open>uint16_t cmd = (EEPROM_CMD_ERASE << 13) | ((addr & 0x03FF) << 3)\<close> in
  \<open>eeprom_erase\<close>.
\<close>

definition erase_cmd :: "u16 \<Rightarrow> u16" where
  "erase_cmd addr =
     ucast (push_bit 13 EEPROM_CMD_ERASE OR push_bit 3 ((ucast addr :: u32) AND 0x03FF))"

text \<open>
  The alignment of the three received bytes in \<open>eeprom_read\<close>:
  \<open>*data = ((uint16_t)(databuf[0] << 9)) | ((uint16_t)(databuf[1] << 1)) | ((databuf[2] >> 7) & 0x01)\<close>.
  Each shift is done on the promoted byte, the two casts truncate to 16 bits, the
  disjunction is computed on \<open>int\<close> and the assignment truncates it again.
\<close>

definition read_data :: "u8 \<Rightarrow> u8 \<Rightarrow> u8 \<Rightarrow> u16" where
  "read_data b0 b1 b2 =
     ucast ((ucast (ucast (push_bit 9 (ucast b0 :: u32)) :: u16) :: u32)
            OR (ucast (ucast (push_bit 1 (ucast b1 :: u32)) :: u16) :: u32)
            OR (drop_bit 7 (ucast b2 :: u32) AND 0x01))"

text \<open>
  The reference formula of the specification, in its own words: assemble the 24-bit
  receive buffer, shift it right by 7 bits and mask to 16 bits.
\<close>

definition spec_decode :: "u8 \<Rightarrow> u8 \<Rightarrow> u8 \<Rightarrow> u16" where
  "spec_decode b0 b1 b2 =
     ucast (drop_bit 7 (push_bit 16 (ucast b0 :: u32) OR push_bit 8 (ucast b1 :: u32)
                        OR (ucast b2 :: u32)) AND 0xFFFF)"

subsection \<open>Effects\<close>

text \<open>
  The driver talks to the outside through \<open>gpio_put\<close>, the busy-wait \<open>delay_250ns\<close>,
  \<open>spi_write_blocking\<close>, \<open>spi_read_blocking\<close> and \<open>sleep_ms\<close>. Each call is
  recorded, in order, in a trace. Every function of the driver passes its \<open>spi\<close> and
  \<open>cs_pin\<close> arguments on unchanged, so the model has one bus and one chip-select line
  and leaves the two parameters implicit. Console output (\<open>printf\<close>) is outside the
  scope of the specification and is not recorded.
\<close>

datatype event =
    GpioPut bool
  | Delay250ns
  | SpiWrite "u8 list"
  | SpiRead nat
  | SleepMs nat

subsection \<open>The device on the bus\<close>

text \<open>
  The device model of the specification's properties: a 1024-word memory in which a
  write frame stores its word at the masked address and a read returns the stored
  word. It is given at the level of the bus, so that the driver's framing and alignment
  take part in every property proved over it. A four-byte frame with the write opcode in
  bits 28..26 stores bits 15..0 at the address in bits 25..16; a two-byte frame with
  the read opcode in bits 12..10 selects the address in bits 9..0; the device then
  answers with one dummy bit (0), the sixteen bits of the selected word, most
  significant first, and zeros for every further bit clocked. Other frames leave the
  memory as it is.
\<close>

record device =
  cells :: "10 word \<Rightarrow> u16"
  selected :: "10 word"

definition device_rx :: "device \<Rightarrow> u8 list \<Rightarrow> device" where
  "device_rx d bytes =
     (case bytes of
        [b0, b1, b2, b3] \<Rightarrow>
          (let cmd = push_bit 24 (ucast b0 :: u32) OR push_bit 16 (ucast b1 :: u32)
                     OR push_bit 8 (ucast b2 :: u32) OR (ucast b3 :: u32)
           in if drop_bit 26 cmd = 5
              then d\<lparr>cells := (cells d)(ucast (drop_bit 16 cmd) := ucast cmd)\<rparr>
              else d)
      | [b0, b1] \<Rightarrow>
          (let cmd = push_bit 8 (ucast b0 :: u16) OR (ucast b1 :: u16)
           in if drop_bit 10 cmd = 6 then d\<lparr>selected := ucast cmd\<rparr> else d)
      | _ \<Rightarrow> d)"

definition device_tx :: "device \<Rightarrow> nat \<Rightarrow> u8 list" where
  "device_tx d n =
     (let w = cells d (selected d)
      in take n ([ucast (drop_bit 9 w), ucast (drop_bit 1 w), push_bit 7 (ucast w)]
                 @ replicate (n - 3) 0))"

subsection \<open>State\<close>

text \<open>
  The state threaded through the driver: the file-scope \<open>dump_flag\<close>, the device on
  the bus, and the trace of effects so far.
\<close>

record state =
  dump_flag :: u8
  dev :: device
  trace :: "event list"

text \<open>The state at program start: \<open>static uint8_t dump_flag = 0\<close>.\<close>

definition init_state :: "device \<Rightarrow> state" where
  "init_state d = \<lparr>dump_flag = 0, dev = d, trace = []\<rparr>"

definition gpio_put :: "bool \<Rightarrow> state \<Rightarrow> state" where
  "gpio_put level st = st\<lparr>trace := trace st @ [GpioPut level]\<rparr>"

definition delay_250ns :: "state \<Rightarrow> state" where
  "delay_250ns st = st\<lparr>trace := trace st @ [Delay250ns]\<rparr>"

definition sleep_ms :: "nat \<Rightarrow> state \<Rightarrow> state" where
  "sleep_ms n st = st\<lparr>trace := trace st @ [SleepMs n]\<rparr>"

definition spi_write_blocking :: "u8 list \<Rightarrow> state \<Rightarrow> state" where
  "spi_write_blocking src st =
     st\<lparr>dev := device_rx (dev st) src, trace := trace st @ [SpiWrite src]\<rparr>"

definition spi_read_blocking :: "nat \<Rightarrow> state \<Rightarrow> u8 list \<times> state" where
  "spi_read_blocking len st =
     (device_tx (dev st) len, st\<lparr>trace := trace st @ [SpiRead len]\<rparr>)"

definition cs_select :: "state \<Rightarrow> state" where
  "cs_select st = delay_250ns (gpio_put True st)"

definition cs_deselect :: "state \<Rightarrow> state" where
  "cs_deselect st = delay_250ns (gpio_put False st)"

subsection \<open>The five transactions\<close>

definition eeprom_write_enable :: "state \<Rightarrow> state" where
  "eeprom_write_enable st =
     (let st = cs_deselect st;
          st = cs_select st;
          st = spi_write_blocking (cmdbuf2 wen_cmd) st
      in cs_deselect st)"

definition eeprom_write_disable :: "state \<Rightarrow> state" where
  "eeprom_write_disable st =
     (let st = cs_deselect st;
          st = cs_select st;
          st = spi_write_blocking (cmdbuf2 wds_cmd) st
      in cs_deselect st)"

definition eeprom_read :: "u16 \<Rightarrow> state \<Rightarrow> u16 \<times> state" where
  "eeprom_read addr st =
     (let st = (if dump_flag st = 0 then cs_select (cs_deselect st) else st);
          st = spi_write_blocking (cmdbuf2 (read_cmd addr)) st;
          (databuf, st) = spi_read_blocking 3 st;
          data = read_data (databuf ! 0) (databuf ! 1) (databuf ! 2);
          st = (if dump_flag st = 0 then cs_select (cs_deselect st) else st)
      in (data, st))"

definition eeprom_write :: "u16 \<Rightarrow> u16 \<Rightarrow> state \<Rightarrow> state" where
  "eeprom_write addr data st =
     (let st = cs_deselect st;
          st = cs_select st;
          st = spi_write_blocking (cmdbuf4 (write_cmd addr data)) st;
          st = sleep_ms 7 st;
          st = cs_deselect st
      in cs_select st)"

definition eeprom_erase :: "u16 \<Rightarrow> state \<Rightarrow> state" where
  "eeprom_erase addr st =
     (let st = cs_deselect st;
          st = cs_select st;
          st = spi_write_blocking (cmdbuf2 (erase_cmd addr)) st;
          st = cs_deselect st
      in sleep_ms 4 st)"

subsection \<open>Bulk operations\<close>

text \<open>
  A caller's \<open>uint16_t\<close> array is the map from index to element that the pointer
  gives access to; the loops below index it exactly as the source does.
  \<open>for (uint16_t addr = 0; addr <= 0x03FF; addr++)\<close> is a recursion on \<open>addr\<close>,
  \<open>for (size_t i = 0; i < len; i++)\<close> a recursion on the 32-bit \<open>i\<close>.
\<close>

function write_buf_loop :: "u16 \<Rightarrow> (nat \<Rightarrow> u16) \<Rightarrow> u32 \<Rightarrow> u32 \<Rightarrow> state \<Rightarrow> state" where
  "write_buf_loop start_addr buf len i st =
     (if i < len then
        (let st = eeprom_write (ucast ((ucast start_addr :: u32) + i)) (buf (unat i)) st;
             st = cs_select st
         in write_buf_loop start_addr buf len (i + 1) st)
      else st)"
  by pat_completeness auto
termination
proof -
  have step: "unat len - unat (i + 1) < unat len - unat i" if "i < len" for i len :: u32
  proof -
    have "unat i < unat len"
      using that by (simp add: word_less_nat_alt)
    moreover have "unat len < 2 ^ 32"
      using unsigned_less [of len] by simp
    ultimately show ?thesis
      by (simp add: unat_word_ariths)
  qed
  show ?thesis
    by (relation "measure (\<lambda>(start_addr, buf, len, i, st). unat len - unat i)")
       (auto simp: step)
qed

definition eeprom_write_buf :: "u16 \<Rightarrow> (nat \<Rightarrow> u16) \<Rightarrow> u32 \<Rightarrow> state \<Rightarrow> state" where
  "eeprom_write_buf start_addr buf len st = write_buf_loop start_addr buf len 0 st"

function dump_loop :: "u16 \<Rightarrow> state \<Rightarrow> state" where
  "dump_loop addr st =
     (if addr \<le> 0x03FF then
        (let st = cs_deselect st;
             st = cs_select st;
             (data, st) = eeprom_read addr st
         in dump_loop (addr + 1) st)
      else st)"
  by pat_completeness auto
termination
proof -
  have step: "0x0400 - unat (addr + 1) < 0x0400 - unat addr" if "addr \<le> 0x03FF"
    for addr :: u16
    using that by (simp add: word_le_nat_alt unat_word_ariths)
  show ?thesis
    by (relation "measure (\<lambda>(addr, st). 0x0400 - unat addr)") (auto simp: step)
qed

definition eeprom_dump :: "state \<Rightarrow> state" where
  "eeprom_dump st =
     (let st = st\<lparr>dump_flag := 1\<rparr>;
          st = dump_loop 0 st
      in st\<lparr>dump_flag := 0\<rparr>)"

function copy_loop :: "u16 \<Rightarrow> (nat \<Rightarrow> u16) \<Rightarrow> state \<Rightarrow> (nat \<Rightarrow> u16) \<times> state" where
  "copy_loop addr eeprom_buffer st =
     (if addr \<le> 0x03FF then
        (let st = cs_deselect st;
             st = cs_select st;
             (data, st) = eeprom_read addr st;
             eeprom_buffer = eeprom_buffer(unat addr := data)
         in copy_loop (addr + 1) eeprom_buffer st)
      else (eeprom_buffer, st))"
  by pat_completeness auto
termination
proof -
  have step: "0x0400 - unat (addr + 1) < 0x0400 - unat addr" if "addr \<le> 0x03FF"
    for addr :: u16
    using that by (simp add: word_le_nat_alt unat_word_ariths)
  show ?thesis
    by (relation "measure (\<lambda>(addr, eeprom_buffer, st). 0x0400 - unat addr)")
       (auto simp: step)
qed

definition eeprom_copy :: "(nat \<Rightarrow> u16) \<Rightarrow> state \<Rightarrow> (nat \<Rightarrow> u16) \<times> state" where
  "eeprom_copy eeprom_buffer st =
     (let st = st\<lparr>dump_flag := 1\<rparr>;
          (eeprom_buffer, st) = copy_loop 0 eeprom_buffer st
      in (eeprom_buffer, st\<lparr>dump_flag := 0\<rparr>))"

function paste_loop :: "u16 \<Rightarrow> (nat \<Rightarrow> u16) \<Rightarrow> state \<Rightarrow> state" where
  "paste_loop addr eeprom_buffer st =
     (if addr \<le> 0x03FF then
        (let st = eeprom_write addr (eeprom_buffer (unat addr)) st
         in paste_loop (addr + 1) eeprom_buffer st)
      else st)"
  by pat_completeness auto
termination
proof -
  have step: "0x0400 - unat (addr + 1) < 0x0400 - unat addr" if "addr \<le> 0x03FF"
    for addr :: u16
    using that by (simp add: word_le_nat_alt unat_word_ariths)
  show ?thesis
    by (relation "measure (\<lambda>(addr, eeprom_buffer, st). 0x0400 - unat addr)")
       (auto simp: step)
qed

definition eeprom_paste :: "(nat \<Rightarrow> u16) \<Rightarrow> state \<Rightarrow> state" where
  "eeprom_paste eeprom_buffer st = paste_loop 0 eeprom_buffer st"

subsection \<open>Strings\<close>

text \<open>
  \<open>eeprom_write_string\<close> reads its argument until it meets a zero byte, two
  characters at a time. The argument is the character array the pointer points into,
  as a list of bytes; a read at or beyond its end is outside the object, which C leaves
  undefined and the model reports as \<open>OutOfBounds\<close>. The index \<open>i\<close> stays below
  the length of the array plus two, so it is a natural number.
\<close>

datatype error = OutOfBounds

text \<open>\<open>word = (str[i] << 8) | (str[i + 1] != '\0' ? str[i + 1] : 0)\<close>\<close>

definition pack_word :: "u8 \<Rightarrow> u8 \<Rightarrow> u16" where
  "pack_word c0 c1 =
     ucast (push_bit 8 (ucast c0 :: u32) OR (if c1 \<noteq> 0 then (ucast c1 :: u32) else 0))"

function write_string_loop :: "u8 list \<Rightarrow> nat \<Rightarrow> u16 \<Rightarrow> state \<Rightarrow> error + state" where
  "write_string_loop str i start_addr st =
     (if length str \<le> i then Inl OutOfBounds
      else if str ! i = 0 then Inr st
      else if length str \<le> i + 1 then Inl OutOfBounds
      else
        (let word = pack_word (str ! i) (str ! (i + 1));
             st = eeprom_write start_addr word st
         in write_string_loop str (i + 2) (start_addr + 1) st))"
  by pat_completeness auto
termination
  by (relation "measure (\<lambda>(str, i, start_addr, st). length str - i)") auto

definition eeprom_write_string :: "u16 \<Rightarrow> u8 list \<Rightarrow> state \<Rightarrow> error + state" where
  "eeprom_write_string start_addr str st = write_string_loop str 0 start_addr st"

text \<open>
  \<open>eeprom_read_string\<close> stores into the caller's buffer. The buffer is the map from
  index to character behind the pointer, together with the log of the stores made into
  it, in order: each \<open>str[i] = c\<close> updates the map and appends \<open>(i, c)\<close> to the log.
\<close>

record strbuf =
  chars :: "nat \<Rightarrow> u8"
  stores :: "(u32 \<times> u8) list"

definition new_strbuf :: "(nat \<Rightarrow> u8) \<Rightarrow> strbuf" where
  "new_strbuf cs = \<lparr>chars = cs, stores = []\<rparr>"

definition store_char :: "u32 \<Rightarrow> u8 \<Rightarrow> strbuf \<Rightarrow> strbuf" where
  "store_char i c str = \<lparr>chars = (chars str)(unat i := c), stores = stores str @ [(i, c)]\<rparr>"

text \<open>
  The loop \<open>while (i < max_len - 1)\<close>; \<open>bound\<close> is the value of \<open>max_len - 1\<close>,
  computed in \<open>size_t\<close>. The result carries the value of \<open>i\<close> at the exit.
\<close>

function read_string_loop ::
  "u32 \<Rightarrow> u32 \<Rightarrow> u16 \<Rightarrow> strbuf \<Rightarrow> state \<Rightarrow> u32 \<times> strbuf \<times> state" where
  "read_string_loop bound i start_addr str st =
     (if i < bound then
        (let (word, st) = eeprom_read start_addr st;
             start_addr = start_addr + 1;
             hi = (ucast (drop_bit 8 (ucast word :: u32)) :: u8);
             lo = (ucast ((ucast word :: u32) AND 0xFF) :: u8);
             str = store_char i hi str;
             i = i + 1;
             (str, i) = (if i < bound then (store_char i lo str, i + 1) else (str, i))
         in if hi = 0 \<or> lo = 0 then (i, str, st)
            else read_string_loop bound i start_addr str st)
      else (i, str, st))"
  by pat_completeness auto
termination
proof -
  have next1: "unat (i + 1) = Suc (unat i)" if "i < bound" for i bound :: u32
  proof -
    have "unat i < unat bound"
      using that by (simp add: word_less_nat_alt)
    moreover have "unat bound < 2 ^ 32"
      using unsigned_less [of bound] by simp
    ultimately have "unat i + 1 < 2 ^ 32"
      by linarith
    then show ?thesis
      by (simp add: unat_word_ariths)
  qed
  have step1: "unat bound - unat (i + 1) < unat bound - unat i" if "i < bound"
    for i bound :: u32
    using that next1 [OF that] by (simp add: word_less_nat_alt)
  have step2: "unat bound - unat (2 + i) < unat bound - unat i"
    if "i < bound" and "i + 1 < bound" for i bound :: u32
  proof -
    have "unat (i + 1 + 1) = Suc (unat (i + 1))"
      using that(2) by (rule next1)
    then have "unat (2 + i) = Suc (Suc (unat i))"
      using next1 [OF that(1)] by (simp add: add.commute)
    then show ?thesis
      using that(1) by (simp add: word_less_nat_alt)
  qed
  show ?thesis
    by (relation "measure (\<lambda>(bound, i, start_addr, str, st). unat bound - unat i)")
       (auto simp: step1 step2 split: if_splits)
qed

text \<open>
  The bindings of one iteration of that loop, by name: the two characters of the word
  read, and the buffer and index after the two stores. They serve to state the loop's
  unfolding.
\<close>

definition read_string_hi :: "u16 \<Rightarrow> state \<Rightarrow> u8" where
  "read_string_hi a st = ucast (drop_bit 8 (ucast (fst (eeprom_read a st)) :: u32))"

definition read_string_lo :: "u16 \<Rightarrow> state \<Rightarrow> u8" where
  "read_string_lo a st = ucast ((ucast (fst (eeprom_read a st)) :: u32) AND 0xFF)"

definition read_string_body :: "u32 \<Rightarrow> u32 \<Rightarrow> u16 \<Rightarrow> strbuf \<Rightarrow> state \<Rightarrow> strbuf \<times> u32" where
  "read_string_body bound i a str st =
     (if i + 1 < bound
      then (store_char (i + 1) (read_string_lo a st) (store_char i (read_string_hi a st) str),
            i + 1 + 1)
      else (store_char i (read_string_hi a st) str, i + 1))"

definition eeprom_read_string :: "u16 \<Rightarrow> strbuf \<Rightarrow> u32 \<Rightarrow> state \<Rightarrow> strbuf \<times> state" where
  "eeprom_read_string start_addr str max_len st =
     (let (i, str, st) = read_string_loop (max_len - 1) 0 start_addr str st
      in (store_char i 0 str, st))"

text \<open>The C string that starts a buffer of \<open>n\<close> characters: its bytes before the first zero.\<close>

definition c_string :: "nat \<Rightarrow> (nat \<Rightarrow> u8) \<Rightarrow> u8 list" where
  "c_string n cs = takeWhile (\<lambda>c. c \<noteq> 0) (map cs [0..<n])"

subsection \<open>Sequential reads\<close>

text \<open>
  The two functions that the source lists under \<open>NON-WORKING FUNCTIONS\<close>. Nothing calls
  them; they are part of the driver's interface all the same.
\<close>

text \<open>
  The word assembled from two further bytes by \<open>eeprom_sequential_read_length\<close>,
  \<open>((uint16_t)(b0 << 8)) | (b1 << 1) & 0xFF | (b1 >> 7) & 0x01\<close> (\<open>&\<close> binds tighter than
  \<open>|\<close>), and by \<open>eeprom_sequential_read_range\<close>, \<open>((uint16_t)(b0 << 8)) | b1\<close>.
\<close>

definition seq_length_word :: "u8 \<Rightarrow> u8 \<Rightarrow> u16" where
  "seq_length_word b0 b1 =
     ucast ((ucast (ucast (push_bit 8 (ucast b0 :: u32)) :: u16) :: u32)
            OR (push_bit 1 (ucast b1 :: u32) AND 0xFF)
            OR (drop_bit 7 (ucast b1 :: u32) AND 0x01))"

definition seq_range_word :: "u8 \<Rightarrow> u8 \<Rightarrow> u16" where
  "seq_range_word b0 b1 =
     ucast ((ucast (ucast (push_bit 8 (ucast b0 :: u32)) :: u16) :: u32) OR (ucast b1 :: u32))"

text \<open>
  The loop \<open>for (size_t i = 1; i < length; i++)\<close> of both functions, over the bytes
  received; the two differ in the word they assemble. The indices \<open>3 + (i - 1) * 2\<close>
  and \<open>3 + (i - 1) * 2 + 1\<close> are computed in \<open>size_t\<close>; a read outside \<open>databuf\<close> is
  \<open>OutOfBounds\<close>.
\<close>

function seq_read_loop ::
  "(u8 \<Rightarrow> u8 \<Rightarrow> u16) \<Rightarrow> u8 list \<Rightarrow> u32 \<Rightarrow> u32 \<Rightarrow> (nat \<Rightarrow> u16) \<Rightarrow> error + (nat \<Rightarrow> u16)" where
  "seq_read_loop word databuf len i buf =
     (if i < len then
        (let k0 = unat (3 + (i - 1) * 2 :: u32);
             k1 = unat (3 + (i - 1) * 2 + 1 :: u32)
         in if length databuf \<le> k0 \<or> length databuf \<le> k1 then Inl OutOfBounds
            else seq_read_loop word databuf len (i + 1)
                   (buf(unat i := word (databuf ! k0) (databuf ! k1))))
      else Inr buf)"
  by pat_completeness auto
termination
proof -
  have step: "unat len - unat (i + 1) < unat len - unat i" if "i < len" for i len :: u32
  proof -
    have "unat i < unat len"
      using that by (simp add: word_less_nat_alt)
    moreover have "unat len < 2 ^ 32"
      using unsigned_less [of len] by simp
    ultimately show ?thesis
      by (simp add: unat_word_ariths)
  qed
  show ?thesis
    by (relation "measure (\<lambda>(word, databuf, len, i, buf). unat len - unat i)")
       (auto simp: step)
qed

text \<open>
  The body the two functions share after their early return: the chip-select sequence,
  the read command, one bus read of \<open>sizeof(databuf) = 3 + (length - 1) * 2\<close> bytes
  (in \<open>size_t\<close>), the first word aligned as in \<open>eeprom_read\<close>, the loop, and the closing
  deassert.
\<close>

definition seq_read ::
  "(u8 \<Rightarrow> u8 \<Rightarrow> u16) \<Rightarrow> u16 \<Rightarrow> (nat \<Rightarrow> u16) \<Rightarrow> u32 \<Rightarrow> state \<Rightarrow> error + ((nat \<Rightarrow> u16) \<times> state)" where
  "seq_read word start_addr buf len st =
     (let st = cs_deselect st;
          st = delay_250ns st;
          st = cs_select st;
          st = spi_write_blocking (cmdbuf2 (read_cmd start_addr)) st;
          (databuf, st) = spi_read_blocking (unat (3 + (len - 1) * 2 :: u32)) st
      in if length databuf < 3 then Inl OutOfBounds
         else
           (case seq_read_loop word databuf len 1
                   (buf(0 := read_data (databuf ! 0) (databuf ! 1) (databuf ! 2))) of
              Inl e \<Rightarrow> Inl e
            | Inr buf \<Rightarrow> Inr (buf, cs_deselect st)))"

definition eeprom_sequential_read_length ::
  "u16 \<Rightarrow> (nat \<Rightarrow> u16) \<Rightarrow> u32 \<Rightarrow> state \<Rightarrow> error + ((nat \<Rightarrow> u16) \<times> state)" where
  "eeprom_sequential_read_length start_addr buf len st =
     (if len = 0 then Inr (buf, st) else seq_read seq_length_word start_addr buf len st)"

text \<open>\<open>size_t length = end_addr - start_addr + 1\<close>, after \<open>if (start_addr > end_addr) return\<close>.\<close>

definition eeprom_sequential_read_range ::
  "u16 \<Rightarrow> u16 \<Rightarrow> (nat \<Rightarrow> u16) \<Rightarrow> state \<Rightarrow> error + ((nat \<Rightarrow> u16) \<times> state)" where
  "eeprom_sequential_read_range start_addr end_addr buf st =
     (if end_addr < start_addr then Inr (buf, st)
      else seq_read seq_range_word start_addr buf
             ((ucast end_addr :: u32) - (ucast start_addr :: u32) + 1) st)"

subsection \<open>Reading traces\<close>

text \<open>The effects a run from \<open>st\<close> to \<open>st'\<close> has added to the trace.\<close>

definition emitted :: "state \<Rightarrow> state \<Rightarrow> event list" where
  "emitted st st' = drop (length (trace st)) (trace st')"

text \<open>The frames transmitted in a trace, in order.\<close>

fun tx_frames :: "event list \<Rightarrow> u8 list list" where
  "tx_frames [] = []"
| "tx_frames (SpiWrite src # es) = src # tx_frames es"
| "tx_frames (e # es) = tx_frames es"

text \<open>The effects that follow the first bus transfer of a trace.\<close>

fun after_transfer :: "event list \<Rightarrow> event list" where
  "after_transfer [] = []"
| "after_transfer (SpiWrite src # es) = es"
| "after_transfer (e # es) = after_transfer es"

text \<open>
  In a list of effects, a settle delay comes first and a chip-select deassert
  (\<open>gpio_put(cs_pin, 0)\<close>) follows it: no deassert precedes the delay.
\<close>

fun settle_before_close :: "event list \<Rightarrow> bool" where
  "settle_before_close [] = False"
| "settle_before_close (SleepMs n # es) = (GpioPut False \<in> set es)"
| "settle_before_close (GpioPut level # es) = (if level then settle_before_close es else False)"
| "settle_before_close (e # es) = settle_before_close es"

text \<open>A device with every cell erased.\<close>

definition erased_device :: device where
  "erased_device = \<lparr>cells = (\<lambda>a. 0xFFFF), selected = 0\<rparr>"

subsection \<open>Sequences of calls\<close>

text \<open>
  The public operations of the driver as values, and a program that calls them one
  after the other; a call that leaves its argument's bounds ends the program.
\<close>

datatype call =
    WriteEnable
  | WriteDisable
  | Read u16
  | Write u16 u16
  | WriteBuf u16 "nat \<Rightarrow> u16" u32
  | Erase u16
  | Dump
  | Copy "nat \<Rightarrow> u16"
  | Paste "nat \<Rightarrow> u16"
  | WriteString u16 "u8 list"
  | ReadString u16 "nat \<Rightarrow> u8" u32
  | SequentialReadLength u16 "nat \<Rightarrow> u16" u32
  | SequentialReadRange u16 u16 "nat \<Rightarrow> u16"

fun exec :: "call \<Rightarrow> state \<Rightarrow> error + state" where
  "exec WriteEnable st = Inr (eeprom_write_enable st)"
| "exec WriteDisable st = Inr (eeprom_write_disable st)"
| "exec (Read addr) st = Inr (snd (eeprom_read addr st))"
| "exec (Write addr data) st = Inr (eeprom_write addr data st)"
| "exec (WriteBuf start_addr buf len) st = Inr (eeprom_write_buf start_addr buf len st)"
| "exec (Erase addr) st = Inr (eeprom_erase addr st)"
| "exec Dump st = Inr (eeprom_dump st)"
| "exec (Copy eeprom_buffer) st = Inr (snd (eeprom_copy eeprom_buffer st))"
| "exec (Paste eeprom_buffer) st = Inr (eeprom_paste eeprom_buffer st)"
| "exec (WriteString start_addr str) st = eeprom_write_string start_addr str st"
| "exec (ReadString start_addr cs max_len) st =
     Inr (snd (eeprom_read_string start_addr (new_strbuf cs) max_len st))"
| "exec (SequentialReadLength start_addr buf len) st =
     (case eeprom_sequential_read_length start_addr buf len st of
        Inl e \<Rightarrow> Inl e
      | Inr r \<Rightarrow> Inr (snd r))"
| "exec (SequentialReadRange start_addr end_addr buf) st =
     (case eeprom_sequential_read_range start_addr end_addr buf st of
        Inl e \<Rightarrow> Inl e
      | Inr r \<Rightarrow> Inr (snd r))"

fun run :: "call list \<Rightarrow> state \<Rightarrow> error + state" where
  "run [] st = Inr st"
| "run (c # cs) st = (case exec c st of Inl e \<Rightarrow> Inl e | Inr st' \<Rightarrow> run cs st')"

text \<open>The calls that scan the whole memory with \<open>dump_flag\<close> set.\<close>

fun scans_memory :: "call \<Rightarrow> bool" where
  "scans_memory Dump = True"
| "scans_memory (Copy eeprom_buffer) = True"
| "scans_memory c = False"

text \<open>The loops are unfolded one iteration at a time, where a proof asks for it.\<close>

declare write_buf_loop.simps [simp del] dump_loop.simps [simp del] copy_loop.simps [simp del]
  paste_loop.simps [simp del] write_string_loop.simps [simp del] read_string_loop.simps [simp del]
  seq_read_loop.simps [simp del]

section \<open>Facts about words\<close>

lemma and_0xFF: "(x :: u32) AND 0xFF = take_bit 8 x"
  by (simp add: take_bit_eq_mask mask_eq_exp_minus_1)

lemma and_0x03FF: "(x :: u32) AND 0x03FF = take_bit 10 x"
  by (simp add: take_bit_eq_mask mask_eq_exp_minus_1)

lemma and_0xFFFF: "(x :: u32) AND 0xFFFF = take_bit 16 x"
  by (simp add: take_bit_eq_mask mask_eq_exp_minus_1)

lemma take_bit_10_add_1024:
  "take_bit 10 (addr + 1024 * k) = take_bit 10 addr" for addr k :: u16
proof -
  have "unat (take_bit 10 (addr + 1024 * k)) = (unat addr + 1024 * unat k mod 65536) mod 1024"
    by (simp add: unsigned_take_bit_eq take_bit_eq_mod unat_word_ariths mod_mod_cancel)
  also have "\<dots> = unat addr mod 1024"
  proof -
    have "(1024 * unat k mod 65536) mod 1024 = 0"
      by (simp add: mod_mod_cancel)
    then show ?thesis
      using mod_add_right_eq [of "unat addr" "1024 * unat k mod 65536" 1024] by simp
  qed
  also have "\<dots> = unat (take_bit 10 addr)"
    by (simp add: take_bit_eq_mod unat_mod)
  finally show ?thesis
    by (simp only: word_unat_eq_iff)
qed

lemma masked_addr: "(ucast addr :: u32) AND 0x03FF = ucast (take_bit 10 addr)" for addr :: u16
  unfolding and_0x03FF by (rule bit_word_eqI) (auto simp: bit_simps)

lemma masked_addr_add_1024:
  "(ucast (addr + 1024 * k) :: u32) AND 0x03FF = ucast addr AND 0x03FF" for addr k :: u16
  by (simp only: masked_addr take_bit_10_add_1024)

lemma unat_succ_le_0x03FF: "addr \<le> 0x03FF \<Longrightarrow> unat (addr + 1) = Suc (unat addr)"
  for addr :: u16
  by (simp add: word_le_nat_alt unat_word_ariths)

lemma upt_from_addr:
  "addr \<le> 0x03FF \<Longrightarrow> [unat addr..<1024] = unat addr # [unat (addr + 1)..<1024]"
  for addr :: u16
  by (simp add: unat_succ_le_0x03FF upt_conv_Cons word_le_nat_alt)

lemma upt_beyond: "\<not> addr \<le> 0x03FF \<Longrightarrow> [unat addr..<1024] = []" for addr :: u16
  by (simp add: word_le_nat_alt)

lemma unat_succ_less: "i < len \<Longrightarrow> unat (i + 1) = Suc (unat i)" for i len :: u32
proof -
  assume "i < len"
  then have "unat i < unat len"
    by (simp add: word_less_nat_alt)
  moreover have "unat len < 2 ^ 32"
    using unsigned_less [of len] by simp
  ultimately show ?thesis
    by (simp add: unat_word_ariths)
qed

lemma upt_from_index:
  "i < len \<Longrightarrow> [unat i..<unat len] = unat i # [unat (i + 1)..<unat len]" for i len :: u32
  by (simp add: unat_succ_less [of i len] upt_conv_Cons word_less_nat_alt)

lemma ucast_of_nat_u32_u16: "(ucast (of_nat k :: u32) :: u16) = of_nat k"
  by (rule bit_word_eqI) (auto simp: bit_simps)

lemma write_cmd_opcode: "drop_bit 26 (write_cmd addr data) = EEPROM_CMD_WRITE"
proof -
  have "drop_bit 26 (write_cmd addr data) = take_bit 6 EEPROM_CMD_WRITE"
    unfolding write_cmd_def and_0x03FF and_0xFFFF
    by (rule bit_word_eqI) (auto simp: bit_simps dest: bit_imp_le_length)
  then show ?thesis
    by (simp add: EEPROM_CMD_WRITE_def)
qed

lemma write_cmd_address: "(ucast (drop_bit 16 (write_cmd addr data)) :: 10 word) = ucast addr"
    unfolding write_cmd_def and_0x03FF and_0xFFFF
    by (rule bit_word_eqI) (auto simp: bit_simps dest: bit_imp_le_length)

lemma write_cmd_payload: "(ucast (write_cmd addr data) :: u16) = data"
    unfolding write_cmd_def and_0x03FF and_0xFFFF
    by (rule bit_word_eqI) (auto simp: bit_simps dest: bit_imp_le_length)


lemma bytes_of_u32:
  "push_bit 24 (ucast (ucast (take_bit 8 (drop_bit 24 w)) :: u8) :: u32)
     OR push_bit 16 (ucast (ucast (take_bit 8 (drop_bit 16 w)) :: u8) :: u32)
     OR push_bit 8 (ucast (ucast (take_bit 8 (drop_bit 8 w)) :: u8) :: u32)
     OR (ucast (ucast (take_bit 8 w) :: u8) :: u32) = w" for w :: u32
proof (rule bit_word_eqI)
  fix n :: nat
  assume "n < LENGTH(32)"
  then consider "n < 8" | "8 \<le> n" "n < 16" | "16 \<le> n" "n < 24" | "24 \<le> n" "n < 32"
    by fastforce
  then show "bit (push_bit 24 (ucast (ucast (take_bit 8 (drop_bit 24 w)) :: u8) :: u32)
     OR push_bit 16 (ucast (ucast (take_bit 8 (drop_bit 16 w)) :: u8) :: u32)
     OR push_bit 8 (ucast (ucast (take_bit 8 (drop_bit 8 w)) :: u8) :: u32)
     OR (ucast (ucast (take_bit 8 w) :: u8) :: u32)) n = bit w n"
    by cases (auto simp: bit_simps)
qed

lemma bytes_of_u16:
  "push_bit 8 (ucast (ucast (drop_bit 8 (ucast w :: u32)) :: u8) :: u16)
     OR (ucast (ucast (take_bit 8 (ucast w :: u32)) :: u8) :: u16) = w" for w :: u16
proof (rule bit_word_eqI)
  fix n :: nat
  assume "n < LENGTH(16)"
  then consider "n < 8" | "8 \<le> n" "n < 16"
    by fastforce
  then show "bit (push_bit 8 (ucast (ucast (drop_bit 8 (ucast w :: u32)) :: u8) :: u16)
     OR (ucast (ucast (take_bit 8 (ucast w :: u32)) :: u8) :: u16)) n = bit w n"
    by cases (auto simp: bit_simps)
qed

lemma read_cmd_opcode: "drop_bit 10 (read_cmd addr) = 6"
proof -
  have "drop_bit 10 (read_cmd addr) = ucast (take_bit 6 EEPROM_CMD_READ)"
    unfolding read_cmd_def and_0x03FF
    by (rule bit_word_eqI) (auto simp: bit_simps dest: bit_imp_le_length)
  then show ?thesis
    by (simp add: EEPROM_CMD_READ_def)
qed

lemma read_cmd_address: "(ucast (read_cmd addr) :: 10 word) = ucast addr"
  unfolding read_cmd_def and_0x03FF
  by (rule bit_word_eqI) (auto simp: bit_simps dest: bit_imp_le_length)

lemma read_data_stream:
  "read_data (ucast (drop_bit 9 w)) (ucast (drop_bit 1 w)) (push_bit 7 (ucast w)) = w"
  for w :: u16
  unfolding read_data_def
proof (rule bit_word_eqI)
  fix n :: nat
  assume "n < LENGTH(16)"
  then consider "n = 0" | "1 \<le> n" "n < 9" | "9 \<le> n" "n < 16"
    by fastforce
  then show "bit (ucast ((ucast (ucast (push_bit 9 (ucast (ucast (drop_bit 9 w) :: u8) :: u32)) :: u16) :: u32)
            OR (ucast (ucast (push_bit 1 (ucast (ucast (drop_bit 1 w) :: u8) :: u32)) :: u16) :: u32)
            OR (drop_bit 7 (ucast (push_bit 7 (ucast w) :: u8) :: u32) AND 0x01)) :: u16) n = bit w n"
    by cases (auto simp: bit_simps simp del: push_bit_Suc dest: bit_imp_le_length)
qed

lemma decrement_less: "max_len \<noteq> 0 \<Longrightarrow> max_len - 1 < max_len" for max_len :: u32
proof -
  assume "max_len \<noteq> 0"
  moreover from this have "0 < unat max_len"
    by (simp add: unat_gt_0)
  ultimately show ?thesis
    by (simp add: word_less_nat_alt unat_minus_one)
qed

lemma minus_one_u32: "(- 1 :: u32) = 0xFFFFFFFF"
  by simp

lemma one_less_minus_one: "(1 :: u32) < - 1"
  unfolding minus_one_u32 by simp

section \<open>Facts about the primitives\<close>

lemma new_strbuf_simps [simp]:
  "chars (new_strbuf cs) = cs"
  "stores (new_strbuf cs) = []"
  by (simp_all add: new_strbuf_def)


lemma delay_250ns_simps [simp]:
  "trace (delay_250ns st) = trace st @ [Delay250ns]"
  "dump_flag (delay_250ns st) = dump_flag st"
  "dev (delay_250ns st) = dev st"
  by (simp_all add: delay_250ns_def)


lemma cs_select_simps [simp]:
  "trace (cs_select st) = trace st @ [GpioPut True, Delay250ns]"
  "dump_flag (cs_select st) = dump_flag st"
  "dev (cs_select st) = dev st"
  by (simp_all add: cs_select_def gpio_put_def delay_250ns_def)

lemma cs_deselect_simps [simp]:
  "trace (cs_deselect st) = trace st @ [GpioPut False, Delay250ns]"
  "dump_flag (cs_deselect st) = dump_flag st"
  "dev (cs_deselect st) = dev st"
  by (simp_all add: cs_deselect_def gpio_put_def delay_250ns_def)

lemma sleep_ms_simps [simp]:
  "trace (sleep_ms n st) = trace st @ [SleepMs n]"
  "dump_flag (sleep_ms n st) = dump_flag st"
  "dev (sleep_ms n st) = dev st"
  by (simp_all add: sleep_ms_def)

lemma spi_write_blocking_simps [simp]:
  "trace (spi_write_blocking src st) = trace st @ [SpiWrite src]"
  "dump_flag (spi_write_blocking src st) = dump_flag st"
  "dev (spi_write_blocking src st) = device_rx (dev st) src"
  by (simp_all add: spi_write_blocking_def)

lemma spi_read_blocking_simps [simp]:
  "fst (spi_read_blocking len st) = device_tx (dev st) len"
  "trace (snd (spi_read_blocking len st)) = trace st @ [SpiRead len]"
  "dump_flag (snd (spi_read_blocking len st)) = dump_flag st"
  "dev (snd (spi_read_blocking len st)) = dev st"
  by (simp_all add: spi_read_blocking_def)

lemma dump_flag_transactions [simp]:
  "dump_flag (eeprom_write_enable st) = dump_flag st"
  "dump_flag (eeprom_write_disable st) = dump_flag st"
  "dump_flag (eeprom_erase addr st) = dump_flag st"
  by (simp_all add: eeprom_write_enable_def eeprom_write_disable_def eeprom_erase_def Let_def)

lemma emitted_append [simp]: "trace st' = trace st @ es \<Longrightarrow> emitted st st' = es"
  by (simp add: emitted_def)

lemma trace_eeprom_write_enable:
  "trace (eeprom_write_enable st) =
     trace st @ [GpioPut False, Delay250ns, GpioPut True, Delay250ns,
                 SpiWrite (cmdbuf2 wen_cmd), GpioPut False, Delay250ns]"
  by (simp add: eeprom_write_enable_def Let_def)

lemma trace_eeprom_write_disable:
  "trace (eeprom_write_disable st) =
     trace st @ [GpioPut False, Delay250ns, GpioPut True, Delay250ns,
                 SpiWrite (cmdbuf2 wds_cmd), GpioPut False, Delay250ns]"
  by (simp add: eeprom_write_disable_def Let_def)

lemma trace_eeprom_write:
  "trace (eeprom_write addr data st) =
     trace st @ [GpioPut False, Delay250ns, GpioPut True, Delay250ns,
                 SpiWrite (cmdbuf4 (write_cmd addr data)), SleepMs 7,
                 GpioPut False, Delay250ns, GpioPut True, Delay250ns]"
  by (simp add: eeprom_write_def Let_def)

lemma trace_eeprom_erase:
  "trace (eeprom_erase addr st) =
     trace st @ [GpioPut False, Delay250ns, GpioPut True, Delay250ns,
                 SpiWrite (cmdbuf2 (erase_cmd addr)), GpioPut False, Delay250ns, SleepMs 4]"
  by (simp add: eeprom_erase_def Let_def)

lemma trace_eeprom_read:
  "trace (snd (eeprom_read addr st)) =
     trace st @
       (if dump_flag st = 0
        then [GpioPut False, Delay250ns, GpioPut True, Delay250ns,
              SpiWrite (cmdbuf2 (read_cmd addr)), SpiRead 3,
              GpioPut False, Delay250ns, GpioPut True, Delay250ns]
        else [SpiWrite (cmdbuf2 (read_cmd addr)), SpiRead 3])"
  by (simp add: eeprom_read_def Let_def split_beta)

lemma dump_flag_eeprom_read [simp]: "dump_flag (snd (eeprom_read addr st)) = dump_flag st"
  by (simp add: eeprom_read_def Let_def split_beta)

lemma dump_flag_eeprom_write [simp]: "dump_flag (eeprom_write addr data st) = dump_flag st"
  by (simp add: eeprom_write_def Let_def)

lemma emitted_eeprom_write:
  "emitted st (eeprom_write addr data st) =
     [GpioPut False, Delay250ns, GpioPut True, Delay250ns,
      SpiWrite (cmdbuf4 (write_cmd addr data)), SleepMs 7,
      GpioPut False, Delay250ns, GpioPut True, Delay250ns]"
  by (simp add: trace_eeprom_write)

lemma tx_frames_append [simp]: "tx_frames (es @ es') = tx_frames es @ tx_frames es'"
  by (induction es rule: tx_frames.induct) simp_all

lemma tx_frames_concat: "tx_frames (concat ess) = concat (map tx_frames ess)"
  by (induction ess) simp_all

section \<open>Facts about the device\<close>

lemma device_rx_write:
  "device_rx d (cmdbuf4 (write_cmd addr data)) = d\<lparr>cells := (cells d)(ucast addr := data)\<rparr>"
  unfolding device_rx_def cmdbuf4_def and_0xFF
  by (simp only: list.case Let_def bytes_of_u32 write_cmd_opcode write_cmd_address
      write_cmd_payload EEPROM_CMD_WRITE_def) simp

lemma device_rx_read:
  "device_rx d (cmdbuf2 (read_cmd addr)) = d\<lparr>selected := ucast addr\<rparr>"
  unfolding device_rx_def cmdbuf2_def and_0xFF
  by (simp only: list.case Let_def bytes_of_u16 read_cmd_opcode read_cmd_address) simp

lemma device_tx_3:
  "device_tx d 3 =
     [ucast (drop_bit 9 (cells d (selected d))), ucast (drop_bit 1 (cells d (selected d))),
      push_bit 7 (ucast (cells d (selected d)))]"
  by (simp add: device_tx_def Let_def)

lemma eeprom_read_result [simp]:
  "fst (eeprom_read addr st) = cells (dev st) (ucast addr)"
  "dev (snd (eeprom_read addr st)) = (dev st)\<lparr>selected := ucast addr\<rparr>"
  using read_data_stream [of "cells (dev st) (ucast addr)"]
  by (simp_all add: eeprom_read_def Let_def split_beta device_rx_read device_tx_3)

lemma dev_eeprom_write [simp]:
  "dev (eeprom_write addr data st) = (dev st)\<lparr>cells := (cells (dev st))(ucast addr := data)\<rparr>"
  by (simp add: eeprom_write_def Let_def device_rx_write)

section \<open>Facts about the loops\<close>

lemma trace_paste_loop:
  "trace (paste_loop addr buf st) =
     trace st @ concat (map (\<lambda>k. emitted st0 (eeprom_write (of_nat k) (buf k) st0))
                            [unat addr..<1024])"
proof (induction addr buf st rule: paste_loop.induct)
  case (1 addr buf st)
  show ?case
  proof (cases "addr \<le> 0x03FF")
    case True
    then show ?thesis
      using "1.IH" [OF True refl]
      by (subst paste_loop.simps)
         (simp add: upt_from_addr trace_eeprom_write emitted_eeprom_write del: paste_loop.simps)
  next
    case False
    then show ?thesis
      by (subst paste_loop.simps) (simp add: upt_beyond del: paste_loop.simps)
  qed
qed


lemma trace_write_buf_loop:
  "trace (write_buf_loop start_addr buf len i st) =
     trace st @ concat (map (\<lambda>k. emitted st0 (eeprom_write (ucast ((ucast start_addr :: u32) + of_nat k))
                                              (buf k) st0)
                                  @ [GpioPut True, Delay250ns])
                            [unat i..<unat len])"
proof (induction start_addr buf len i st rule: write_buf_loop.induct)
  case (1 start_addr buf len i st)
  show ?case
  proof (cases "i < len")
    case True
    then show ?thesis
      using "1.IH" [OF True refl refl]
      by (subst write_buf_loop.simps)
         (simp add: upt_from_index trace_eeprom_write emitted_eeprom_write)
  next
    case False
    then show ?thesis
      by (subst write_buf_loop.simps) (simp add: word_less_nat_alt)
  qed
qed

lemma copy_loop_image:
  "cells (dev (snd (copy_loop addr buf st))) = cells (dev st)
   \<and> (\<forall>k. unat addr \<le> k \<and> k < 1024 \<longrightarrow> fst (copy_loop addr buf st) k = cells (dev st) (of_nat k))
   \<and> (\<forall>k. k < unat addr \<longrightarrow> fst (copy_loop addr buf st) k = buf k)"
proof (induction addr buf st rule: copy_loop.induct)
  case (1 addr buf st)
  show ?case
  proof (cases "addr \<le> 0x03FF")
    case True
    let ?st1 = "cs_select (cs_deselect st)"
    let ?st2 = "snd (eeprom_read addr ?st1)"
    let ?buf = "buf(unat addr := fst (eeprom_read addr ?st1))"
    have unfold: "copy_loop addr buf st = copy_loop (addr + 1) ?buf ?st2"
      using True by (subst copy_loop.simps) (simp add: Let_def split_beta)
    have IH: "cells (dev (snd (copy_loop (addr + 1) ?buf ?st2))) = cells (dev ?st2)
      \<and> (\<forall>k. unat (addr + 1) \<le> k \<and> k < 1024 \<longrightarrow>
             fst (copy_loop (addr + 1) ?buf ?st2) k = cells (dev ?st2) (of_nat k))
      \<and> (\<forall>k. k < unat (addr + 1) \<longrightarrow> fst (copy_loop (addr + 1) ?buf ?st2) k = ?buf k)"
      by (rule "1.IH" [OF True refl refl refl prod.collapse refl])
    have succ: "unat (addr + 1) = Suc (unat addr)"
      using True by (rule unat_succ_le_0x03FF)
    have cells2: "cells (dev ?st2) = cells (dev st)"
      by simp
    show ?thesis
      unfolding unfold
    proof (intro conjI allI impI)
      show "cells (dev (snd (copy_loop (addr + 1) ?buf ?st2))) = cells (dev st)"
        using IH cells2 by simp
    next
      fix k
      assume k: "unat addr \<le> k \<and> k < 1024"
      show "fst (copy_loop (addr + 1) ?buf ?st2) k = cells (dev st) (of_nat k)"
      proof (cases "k = unat addr")
        case True
        then have "fst (copy_loop (addr + 1) ?buf ?st2) k = ?buf k"
          using IH succ by simp
        also have "\<dots> = cells (dev st) (of_nat k)"
          using True by simp
        finally show ?thesis .
      next
        case False
        with k have "unat (addr + 1) \<le> k \<and> k < 1024"
          using succ by simp
        then show ?thesis
          using IH cells2 by simp
      qed
    next
      fix k
      assume "k < unat addr"
      then have "fst (copy_loop (addr + 1) ?buf ?st2) k = ?buf k"
        using IH succ by simp
      also have "\<dots> = buf k"
        using \<open>k < unat addr\<close> by simp
      finally show "fst (copy_loop (addr + 1) ?buf ?st2) k = buf k" .
    qed
  next
    case False
    then have "copy_loop addr buf st = (buf, st)"
      by (subst copy_loop.simps) simp
    with False show ?thesis
      by (auto simp: word_le_nat_alt)
  qed
qed

lemma paste_loop_image:
  "(\<forall>k. unat addr \<le> k \<and> k < 1024 \<longrightarrow> buf k = cells (dev st) (of_nat k))
   \<Longrightarrow> cells (dev (paste_loop addr buf st)) = cells (dev st)"
proof (induction addr buf st rule: paste_loop.induct)
  case (1 addr buf st)
  show ?case
  proof (cases "addr \<le> 0x03FF")
    case True
    let ?st1 = "eeprom_write addr (buf (unat addr)) st"
    have here: "buf (unat addr) = cells (dev st) (ucast addr)"
      using "1.prems" True by (simp add: word_le_nat_alt)
    then have same: "cells (dev ?st1) = cells (dev st)"
      by simp
    have "cells (dev (paste_loop (addr + 1) buf ?st1)) = cells (dev ?st1)"
      using "1.prems" True
      by (intro "1.IH" [OF True refl]) (simp add: same unat_succ_le_0x03FF)
    then show ?thesis
      using True same by (subst paste_loop.simps) (simp add: Let_def)
  next
    case False
    then show ?thesis
      by (subst paste_loop.simps) simp
  qed
qed

lemma read_string_loop_exit:
  "\<not> i < bound \<Longrightarrow> read_string_loop bound i a str st = (i, str, st)"
  by (subst read_string_loop.simps) simp

lemma read_string_loop_iter:
  "i < bound \<Longrightarrow>
   read_string_loop bound i a str st =
     (if read_string_hi a st = 0 \<or> read_string_lo a st = 0
      then (snd (read_string_body bound i a str st), fst (read_string_body bound i a str st),
            snd (eeprom_read a st))
      else read_string_loop bound (snd (read_string_body bound i a str st)) (a + 1)
             (fst (read_string_body bound i a str st)) (snd (eeprom_read a st)))"
  by (subst read_string_loop.simps)
     (simp add: Let_def split_beta read_string_hi_def read_string_lo_def read_string_body_def)

lemma read_string_loop_induct [case_names Exit Iter]:
  assumes "\<And>bound i a str st. \<not> i < bound \<Longrightarrow> P bound i a str st"
    and "\<And>bound i a str st. i < bound \<Longrightarrow>
           (\<not> (read_string_hi a st = 0 \<or> read_string_lo a st = 0) \<Longrightarrow>
              P bound (snd (read_string_body bound i a str st)) (a + 1)
                (fst (read_string_body bound i a str st)) (snd (eeprom_read a st)))
           \<Longrightarrow> P bound i a str st"
  shows "P bound i a str st"
proof (induction bound i a str st rule: read_string_loop.induct)
  case (1 bound i a str st)
  show ?case
  proof (cases "i < bound")
    case False
    then show ?thesis by (rule assms(1))
  next
    case True
    show ?thesis
    proof (rule assms(2) [OF True])
      assume nz: "\<not> (read_string_hi a st = 0 \<or> read_string_lo a st = 0)"
      then have nz': "\<not> ((ucast (drop_bit 8 (ucast (fst (eeprom_read a st)) :: u32)) :: u8) = 0
                    \<or> (ucast ((ucast (fst (eeprom_read a st)) :: u32) AND 0xFF) :: u8) = 0)"
        unfolding read_string_hi_def read_string_lo_def .
      show "P bound (snd (read_string_body bound i a str st)) (a + 1)
                (fst (read_string_body bound i a str st)) (snd (eeprom_read a st))"
        unfolding read_string_hi_def read_string_lo_def read_string_body_def
        by (rule "1.IH" [OF True refl prod.collapse refl refl refl refl refl refl
              prod.collapse nz'])
    qed
  qed
qed

lemma read_string_body_index:
  assumes "i < bound"
  shows "i < snd (read_string_body bound i a str st)"
    and "snd (read_string_body bound i a str st) \<le> bound"
proof -
  have one: "unat (i + 1) = Suc (unat i)"
    using assms by (rule unat_succ_less)
  have two: "unat (i + 1 + 1) = Suc (Suc (unat i))" if "i + 1 < bound"
    using unat_succ_less [OF that] one by simp
  show "i < snd (read_string_body bound i a str st)"
    using one two by (simp add: read_string_body_def word_less_nat_alt)
  show "snd (read_string_body bound i a str st) \<le> bound"
    using assms inc_le [of i bound] inc_le [of "i + 1" bound]
    by (simp add: read_string_body_def)
qed

lemma read_string_loop_index:
  "i \<le> bound \<Longrightarrow> i \<le> fst (read_string_loop bound i a str st)
     \<and> fst (read_string_loop bound i a str st) \<le> bound"
proof (induction bound i a str st rule: read_string_loop_induct)
  case (Exit bound i a str st)
  then show ?case
    by (simp add: read_string_loop_exit)
next
  case (Iter bound i a str st)
  note idx = read_string_body_index [OF Iter.hyps, of a str st]
  show ?case
  proof (cases "read_string_hi a st = 0 \<or> read_string_lo a st = 0")
    case True
    then show ?thesis
      using idx by (simp add: read_string_loop_iter [OF Iter.hyps])
  next
    case False
    let ?r = "read_string_loop bound (snd (read_string_body bound i a str st)) (a + 1)
                (fst (read_string_body bound i a str st)) (snd (eeprom_read a st))"
    have "i \<le> fst ?r" "fst ?r \<le> bound"
      using Iter.IH [OF False idx(2)] idx(1) by auto
    then show ?thesis
      using False by (simp add: read_string_loop_iter [OF Iter.hyps])
  qed
qed

lemma read_string_body_stores:
  assumes "i < bound"
  shows "\<exists>new. stores (fst (read_string_body bound i a str st))
                  = stores str @ (i, read_string_hi a st) # new
               \<and> list_all (\<lambda>s. fst s < bound) new"
  by (simp add: read_string_body_def store_char_def)

lemma read_string_loop_stores:
  "\<exists>new. stores (fst (snd (read_string_loop bound i a str st))) = stores str @ new
         \<and> list_all (\<lambda>s. fst s < bound) new"
proof (induction bound i a str st rule: read_string_loop_induct)
  case (Exit bound i a str st)
  then show ?case
    by (simp add: read_string_loop_exit)
next
  case (Iter bound i a str st)
  obtain new where new: "stores (fst (read_string_body bound i a str st))
       = stores str @ (i, read_string_hi a st) # new" "list_all (\<lambda>s. fst s < bound) new"
    using read_string_body_stores [OF Iter.hyps] by blast
  show ?case
  proof (cases "read_string_hi a st = 0 \<or> read_string_lo a st = 0")
    case True
    then show ?thesis
      using new Iter.hyps by (simp add: read_string_loop_iter [OF Iter.hyps])
  next
    case False
    obtain more where "stores (fst (snd (read_string_loop bound
           (snd (read_string_body bound i a str st)) (a + 1)
           (fst (read_string_body bound i a str st)) (snd (eeprom_read a st)))))
         = stores (fst (read_string_body bound i a str st)) @ more"
      "list_all (\<lambda>s. fst s < bound) more"
      using Iter.IH [OF False] by blast
    then show ?thesis
      using False new Iter.hyps by (simp add: read_string_loop_iter [OF Iter.hyps])
  qed
qed


lemma dump_flag_write_buf_loop [simp]:
  "dump_flag (write_buf_loop start_addr buf len i st) = dump_flag st"
proof (induction start_addr buf len i st rule: write_buf_loop.induct)
  case (1 start_addr buf len i st)
  show ?case
  proof (cases "i < len")
    case True
    then show ?thesis
      using "1.IH" [OF True refl refl] by (subst write_buf_loop.simps) simp
  next
    case False
    then show ?thesis
      by (subst write_buf_loop.simps) simp
  qed
qed

lemma dump_flag_paste_loop [simp]: "dump_flag (paste_loop addr buf st) = dump_flag st"
proof (induction addr buf st rule: paste_loop.induct)
  case (1 addr buf st)
  show ?case
  proof (cases "addr \<le> 0x03FF")
    case True
    then show ?thesis
      using "1.IH" [OF True refl] by (subst paste_loop.simps) simp
  next
    case False
    then show ?thesis
      by (subst paste_loop.simps) simp
  qed
qed

lemma dump_flag_write_string_loop:
  "write_string_loop str i start_addr st = Inr st' \<Longrightarrow> dump_flag st' = dump_flag st"
proof (induction str i start_addr st rule: write_string_loop.induct)
  case (1 str i start_addr st)
  show ?case
  proof (cases "\<not> length str \<le> i \<and> str ! i \<noteq> 0 \<and> \<not> length str \<le> i + 1")
    case True
    then have "write_string_loop str (i + 2) (start_addr + 1)
                 (eeprom_write start_addr (pack_word (str ! i) (str ! (i + 1))) st) = Inr st'"
      using "1.prems" by (subst (asm) write_string_loop.simps) simp
    then have "dump_flag st' =
                 dump_flag (eeprom_write start_addr (pack_word (str ! i) (str ! (i + 1))) st)"
      using True by (intro "1.IH" [OF _ _ _ refl refl]) simp_all
    then show ?thesis
      by simp
  next
    case False
    then show ?thesis
      using "1.prems" by (subst (asm) write_string_loop.simps) (auto split: if_splits)
  qed
qed

lemma dump_flag_read_string_loop [simp]:
  "dump_flag (snd (snd (read_string_loop bound i a str st))) = dump_flag st"
proof (induction bound i a str st rule: read_string_loop_induct)
  case (Exit bound i a str st)
  then show ?case
    by (simp add: read_string_loop_exit)
next
  case (Iter bound i a str st)
  then show ?case
    by (cases "read_string_hi a st = 0 \<or> read_string_lo a st = 0")
       (simp_all add: read_string_loop_iter)
qed

lemma trace_dump_loop:
  "dump_flag st \<noteq> 0 \<Longrightarrow>
   dump_flag (dump_loop addr st) = dump_flag st
   \<and> trace (dump_loop addr st) =
       trace st @ concat (map (\<lambda>k. [GpioPut False, Delay250ns, GpioPut True, Delay250ns,
                                       SpiWrite (cmdbuf2 (read_cmd (of_nat k))), SpiRead 3])
                              [unat addr..<1024])"
proof (induction addr st rule: dump_loop.induct)
  case (1 addr st)
  show ?case
  proof (cases "addr \<le> 0x03FF")
    case True
    let ?st1 = "cs_select (cs_deselect st)"
    have unfold: "dump_loop addr st = dump_loop (addr + 1) (snd (eeprom_read addr ?st1))"
      using True by (subst dump_loop.simps) (simp add: Let_def split_beta)
    have IH: "dump_flag (dump_loop (addr + 1) (snd (eeprom_read addr ?st1)))
          = dump_flag (snd (eeprom_read addr ?st1))
        \<and> trace (dump_loop (addr + 1) (snd (eeprom_read addr ?st1))) =
          trace (snd (eeprom_read addr ?st1))
          @ concat (map (\<lambda>k. [GpioPut False, Delay250ns, GpioPut True, Delay250ns,
                                       SpiWrite (cmdbuf2 (read_cmd (of_nat k))), SpiRead 3])
                              [unat (addr + 1)..<1024])"
      using "1.prems" by (intro "1.IH" [OF True refl refl refl prod.collapse]) simp
    show ?thesis
      unfolding unfold using IH "1.prems" True
      by (simp add: upt_from_addr trace_eeprom_read)
  next
    case False
    then show ?thesis
      by (subst (1 2) dump_loop.simps) (simp add: upt_beyond)
  qed
qed


lemma trace_copy_loop:
  "dump_flag st \<noteq> 0 \<Longrightarrow>
   dump_flag (snd (copy_loop addr buf st)) = dump_flag st
   \<and> trace (snd (copy_loop addr buf st)) =
       trace st @ concat (map (\<lambda>k. [GpioPut False, Delay250ns, GpioPut True, Delay250ns,
                                       SpiWrite (cmdbuf2 (read_cmd (of_nat k))), SpiRead 3])
                              [unat addr..<1024])"
proof (induction addr buf st rule: copy_loop.induct)
  case (1 addr buf st)
  show ?case
  proof (cases "addr \<le> 0x03FF")
    case True
    let ?st1 = "cs_select (cs_deselect st)"
    let ?st2 = "snd (eeprom_read addr ?st1)"
    let ?buf = "buf(unat addr := fst (eeprom_read addr ?st1))"
    have unfold: "copy_loop addr buf st = copy_loop (addr + 1) ?buf ?st2"
      using True by (subst copy_loop.simps) (simp add: Let_def split_beta)
    have IH: "dump_flag (snd (copy_loop (addr + 1) ?buf ?st2)) = dump_flag ?st2
        \<and> trace (snd (copy_loop (addr + 1) ?buf ?st2)) =
          trace ?st2
          @ concat (map (\<lambda>k. [GpioPut False, Delay250ns, GpioPut True, Delay250ns,
                                       SpiWrite (cmdbuf2 (read_cmd (of_nat k))), SpiRead 3])
                              [unat (addr + 1)..<1024])"
      using "1.prems" by (intro "1.IH" [OF True refl refl refl prod.collapse refl]) simp
    show ?thesis
      unfolding unfold using IH "1.prems" True
      by (simp add: upt_from_addr trace_eeprom_read)
  next
    case False
    then show ?thesis
      by (subst (1 2) copy_loop.simps) (simp add: upt_beyond)
  qed
qed

lemma concat_map_upt_Suc:
  "concat (map f [0..<Suc n]) = f 0 @ concat (map (\<lambda>k. f (Suc k)) [0..<n])"
proof -
  have "[0..<Suc n] = 0 # map Suc [0..<n]"
    by (simp add: upt_conv_Cons map_Suc_upt del: upt_Suc)
  then show ?thesis
    by (simp add: comp_def del: upt_Suc)
qed

lemma trace_read_string_loop:
  "dump_flag st = 0 \<Longrightarrow>
   \<exists>n. trace (snd (snd (read_string_loop bound i a str st))) =
         trace st @ concat (map (\<lambda>k. [GpioPut False, Delay250ns, GpioPut True, Delay250ns,
                                         SpiWrite (cmdbuf2 (read_cmd (a + of_nat k))), SpiRead 3,
                                         GpioPut False, Delay250ns, GpioPut True, Delay250ns])
                                [0..<n])"
proof (induction bound i a str st rule: read_string_loop_induct)
  case (Exit bound i a str st)
  have "trace (snd (snd (read_string_loop bound i a str st))) = trace st @ concat (map
      (\<lambda>k. [GpioPut False, Delay250ns, GpioPut True, Delay250ns,
             SpiWrite (cmdbuf2 (read_cmd (a + of_nat k))), SpiRead 3,
             GpioPut False, Delay250ns, GpioPut True, Delay250ns]) [0..<0])"
    using Exit by (simp add: read_string_loop_exit)
  then show ?case
    by (rule exI)
next
  case (Iter bound i a str st)
  let ?B = "\<lambda>a. [GpioPut False, Delay250ns, GpioPut True, Delay250ns,
             SpiWrite (cmdbuf2 (read_cmd a)), SpiRead 3,
             GpioPut False, Delay250ns, GpioPut True, Delay250ns]"
  have first: "trace (snd (eeprom_read a st)) = trace st @ ?B a"
    using Iter.prems by (simp add: trace_eeprom_read)
  show ?case
  proof (cases "read_string_hi a st = 0 \<or> read_string_lo a st = 0")
    case True
    have "trace (snd (snd (read_string_loop bound i a str st))) =
            trace st @ concat (map (\<lambda>k. ?B (a + of_nat k)) [0..<Suc 0])"
      using True first by (simp add: read_string_loop_iter [OF Iter.hyps])
    then show ?thesis
      by (rule exI)
  next
    case False
    have "dump_flag (snd (eeprom_read a st)) = 0"
      using Iter.prems by simp
    from Iter.IH [OF False this] obtain n where
      rest: "trace (snd (snd (read_string_loop bound (snd (read_string_body bound i a str st))
                 (a + 1) (fst (read_string_body bound i a str st)) (snd (eeprom_read a st))))) =
             trace (snd (eeprom_read a st)) @ concat (map (\<lambda>k. ?B (a + 1 + of_nat k)) [0..<n])"
      by blast
    have step: "concat (map (\<lambda>k. ?B (a + of_nat k)) [0..<Suc n]) =
                  ?B a @ concat (map (\<lambda>k. ?B (a + 1 + of_nat k)) [0..<n])"
      unfolding concat_map_upt_Suc by (simp add: add.assoc)
    have "trace (snd (snd (read_string_loop bound i a str st))) =
            trace st @ ?B a @ concat (map (\<lambda>k. ?B (a + 1 + of_nat k)) [0..<n])"
      using False rest first by (simp add: read_string_loop_iter [OF Iter.hyps])
    then have "trace (snd (snd (read_string_loop bound i a str st))) =
            trace st @ concat (map (\<lambda>k. ?B (a + of_nat k)) [0..<Suc n])"
      by (simp only: step)
    then show ?thesis
      by (rule exI)
  qed
qed

lemma trace_eeprom_read_string:
  "dump_flag st = 0 \<Longrightarrow>
   \<exists>n. emitted st (snd (eeprom_read_string start_addr str max_len st)) =
         concat (map (\<lambda>k. [GpioPut False, Delay250ns, GpioPut True, Delay250ns,
                            SpiWrite (cmdbuf2 (read_cmd (start_addr + of_nat k))), SpiRead 3,
                            GpioPut False, Delay250ns, GpioPut True, Delay250ns])
                     [0..<n])"
proof -
  assume "dump_flag st = 0"
  from trace_read_string_loop [OF this, of "max_len - 1" 0 start_addr str]
  obtain n where "trace (snd (snd (read_string_loop (max_len - 1) 0 start_addr str st))) =
         trace st @ concat (map (\<lambda>k. [GpioPut False, Delay250ns, GpioPut True, Delay250ns,
                            SpiWrite (cmdbuf2 (read_cmd (start_addr + of_nat k))), SpiRead 3,
                            GpioPut False, Delay250ns, GpioPut True, Delay250ns])
                     [0..<n])"
    by blast
  then have "emitted st (snd (eeprom_read_string start_addr str max_len st)) =
         concat (map (\<lambda>k. [GpioPut False, Delay250ns, GpioPut True, Delay250ns,
                            SpiWrite (cmdbuf2 (read_cmd (start_addr + of_nat k))), SpiRead 3,
                            GpioPut False, Delay250ns, GpioPut True, Delay250ns])
                     [0..<n])"
    by (simp add: eeprom_read_string_def split_beta)
  then show ?thesis
    by (rule exI)
qed


lemma dump_flag_seq_read:
  "seq_read word start_addr buf len st = Inr (buf', st') \<Longrightarrow> dump_flag st' = dump_flag st"
  by (auto simp: seq_read_def Let_def split_beta split: if_splits sum.splits)

lemma dump_flag_exec:
  "exec c st = Inr st' \<Longrightarrow> dump_flag st' = (if scans_memory c then 0 else dump_flag st)"
  by (cases c)
     (auto simp: eeprom_write_buf_def eeprom_paste_def eeprom_dump_def eeprom_copy_def
        eeprom_write_string_def eeprom_read_string_def store_char_def Let_def split_beta
        eeprom_sequential_read_length_def eeprom_sequential_read_range_def
        dest: dump_flag_write_string_loop dump_flag_seq_read split: sum.splits if_splits)

lemma dump_flag_run:
  "run cs st = Inr st' \<Longrightarrow> dump_flag st = 0 \<Longrightarrow> dump_flag st' = 0"
proof (induction cs arbitrary: st)
  case Nil
  then show ?case by simp
next
  case (Cons c cs)
  from Cons.prems(1) obtain st1 where st1: "exec c st = Inr st1" "run cs st1 = Inr st'"
    by (auto split: sum.splits)
  from dump_flag_exec [OF st1(1)] Cons.prems(2) have "dump_flag st1 = 0"
    by (simp split: if_splits)
  with st1(2) show ?case
    by (rule Cons.IH)
qed

section \<open>Framing\<close>

text \<open>
  C1. For every three response bytes \<open>b0\<close>, \<open>b1\<close>, \<open>b2\<close>, the word that
  \<open>eeprom_read\<close> assembles, \<open>((uint16_t)(b0 << 9)) | ((uint16_t)(b1 << 1)) | ((b2 >> 7) & 1)\<close>,
  equals the reference formula of the specification: the 24-bit receive buffer
  \<open>b0 << 16 | b1 << 8 | b2\<close> shifted right by 7 bits and masked to 16 bits.
\<close>

theorem read_alignment: "read_data b0 b1 b2 = spec_decode b0 b1 b2"
  unfolding read_data_def spec_decode_def and_0xFFFF
  by (rule bit_word_eqI) (auto simp: bit_simps simp del: push_bit_Suc dest: bit_imp_le_length)

text \<open>
  C2, as stated: the frame transmitted by \<open>eeprom_write\<close> for address \<open>0x10\<close> and data
  \<open>0xDEAD\<close> is \<open>0x94 0x10 0xDE 0xAD\<close>. It is not: the first byte of the frame differs.
\<close>

theorem write_frame_scenario_refuted:
  "tx_frames (emitted (init_state erased_device)
                (eeprom_write 0x10 0xDEAD (init_state erased_device)))
   \<noteq> [[0x94, 0x10, 0xDE, 0xAD]]"
  by (simp add: trace_eeprom_write cmdbuf4_def write_cmd_def EEPROM_CMD_WRITE_def)

text \<open>
  C2, amended. \<open>eeprom_write\<close> for address \<open>0x10\<close> and data \<open>0xDEAD\<close> transmits one
  frame, the most-significant-first byte sequence of
  \<open>cmd = (0b101 << 26) | (0x10 << 16) | 0xDEAD\<close>, and that sequence is
  \<open>0x14 0x10 0xDE 0xAD\<close>.
\<close>

theorem write_frame_scenario:
  "tx_frames (emitted st (eeprom_write 0x10 0xDEAD st))
     = [cmdbuf4 (push_bit 26 0b101 OR push_bit 16 0x10 OR 0xDEAD)]
   \<and> cmdbuf4 (push_bit 26 0b101 OR push_bit 16 0x10 OR 0xDEAD) = [0x14, 0x10, 0xDE, 0xAD]"
  by (simp add: trace_eeprom_write cmdbuf4_def write_cmd_def EEPROM_CMD_WRITE_def)

text \<open>
  C5. For every address \<open>a\<close> and every natural number \<open>k\<close>, the command frame of a
  read, of a write and of an erase for address \<open>a + 1024 * k\<close> (as it arrives in the
  \<open>uint16_t\<close> parameter) is the frame for address \<open>a\<close>.
\<close>

theorem frame_address_masking:
  "cmdbuf2 (read_cmd (of_nat (a + 1024 * k))) = cmdbuf2 (read_cmd (of_nat a))
   \<and> cmdbuf4 (write_cmd (of_nat (a + 1024 * k)) data) = cmdbuf4 (write_cmd (of_nat a) data)
   \<and> cmdbuf2 (erase_cmd (of_nat (a + 1024 * k))) = cmdbuf2 (erase_cmd (of_nat a))"
  by (simp add: read_cmd_def write_cmd_def erase_cmd_def masked_addr_add_1024)

text \<open>
  C7. For every address and data value, \<open>eeprom_write_enable\<close>,
  \<open>eeprom_write_disable\<close>, \<open>eeprom_erase\<close> and the command phase of \<open>eeprom_read\<close>
  each transmit exactly one frame of 2 bytes, and \<open>eeprom_write\<close> transmits exactly one
  frame of 4 bytes.
\<close>

theorem frame_widths:
  "map length (tx_frames (emitted st (eeprom_write_enable st))) = [2]
   \<and> map length (tx_frames (emitted st (eeprom_write_disable st))) = [2]
   \<and> map length (tx_frames (emitted st (eeprom_erase addr st))) = [2]
   \<and> map length (tx_frames (emitted st (snd (eeprom_read addr st)))) = [2]
   \<and> map length (tx_frames (emitted st (eeprom_write addr data st))) = [4]"
  by (simp add: trace_eeprom_write_enable trace_eeprom_write_disable trace_eeprom_erase
      trace_eeprom_read trace_eeprom_write cmdbuf2_def cmdbuf4_def)

section \<open>Sequencing\<close>

text \<open>
  C3, as stated: in the effects of \<open>eeprom_write\<close> and of \<open>eeprom_erase\<close> the settle delay
  comes after the bus transfer and before the closing chip-select deassert. For
  \<open>eeprom_erase\<close> it does not: the deassert comes first.
\<close>

theorem erase_settle_after_close:
  "\<not> settle_before_close
       (after_transfer (emitted (init_state erased_device)
                          (eeprom_erase 0x11 (init_state erased_device))))"
  by (simp add: trace_eeprom_erase)

text \<open>
  C3, amended. For every address and data value, \<open>eeprom_write\<close> waits its 7 ms after
  the bus transfer and before the closing chip-select deassert; \<open>eeprom_erase\<close> deasserts
  chip-select after the bus transfer and then waits its 4 ms, as its last effect.
\<close>

theorem settle_order:
  "settle_before_close (after_transfer (emitted st (eeprom_write addr data st)))
   \<and> after_transfer (emitted st (eeprom_write addr data st))
       = [SleepMs 7, GpioPut False, Delay250ns, GpioPut True, Delay250ns]
   \<and> after_transfer (emitted st (eeprom_erase addr st))
       = [GpioPut False, Delay250ns, SleepMs 4]"
  by (simp add: trace_eeprom_write trace_eeprom_erase)

section \<open>Bulk writes\<close>

text \<open>
  C10. For every buffer \<open>buf\<close>, \<open>eeprom_paste(buf)\<close> and
  \<open>eeprom_write_buf(0, buf, 1024)\<close> transmit the same sequence of frames: the 1024
  four-byte write frames for addresses 0 to 1023, in ascending order, each with the
  buffer's word for its address. The effects of \<open>eeprom_paste\<close> are those of the 1024
  calls of \<open>eeprom_write\<close>; those of \<open>eeprom_write_buf\<close> are the same with one more
  chip-select assert (and its delay) after each call.
\<close>

theorem paste_write_buf_frames:
  "tx_frames (emitted st (eeprom_paste buf st))
     = map (\<lambda>k. cmdbuf4 (write_cmd (of_nat k) (buf k))) [0..<1024]
   \<and> tx_frames (emitted st (eeprom_write_buf 0 buf 1024 st))
     = tx_frames (emitted st (eeprom_paste buf st))
   \<and> map length (tx_frames (emitted st (eeprom_paste buf st))) = replicate 1024 4
   \<and> emitted st (eeprom_paste buf st)
     = concat (map (\<lambda>k. emitted st0 (eeprom_write (of_nat k) (buf k) st0)) [0..<1024])
   \<and> emitted st (eeprom_write_buf 0 buf 1024 st)
     = concat (map (\<lambda>k. emitted st0 (eeprom_write (of_nat k) (buf k) st0)
                          @ [GpioPut True, Delay250ns]) [0..<1024])"
proof -
  have paste: "emitted st (eeprom_paste buf st)
     = concat (map (\<lambda>k. emitted st0 (eeprom_write (of_nat k) (buf k) st0)) [0..<1024])"
    using trace_paste_loop [of 0 buf st st0] by (simp add: eeprom_paste_def)
  have write_buf: "emitted st (eeprom_write_buf 0 buf 1024 st)
     = concat (map (\<lambda>k. emitted st0 (eeprom_write (of_nat k) (buf k) st0)
                          @ [GpioPut True, Delay250ns]) [0..<1024])"
    using trace_write_buf_loop [of 0 buf 1024 0 st st0]
    by (simp add: eeprom_write_buf_def ucast_of_nat_u32_u16)
  have frames_paste: "tx_frames (emitted st (eeprom_paste buf st))
     = map (\<lambda>k. cmdbuf4 (write_cmd (of_nat k) (buf k))) [0..<1024]"
    unfolding paste tx_frames_concat
    by (simp add: emitted_eeprom_write comp_def del: upt_Suc)
  have frames_write_buf: "tx_frames (emitted st (eeprom_write_buf 0 buf 1024 st))
     = map (\<lambda>k. cmdbuf4 (write_cmd (of_nat k) (buf k))) [0..<1024]"
    unfolding write_buf tx_frames_concat
    by (simp add: emitted_eeprom_write comp_def del: upt_Suc)
  have lengths: "map length (tx_frames (emitted st (eeprom_paste buf st))) = replicate 1024 4"
    unfolding frames_paste
    by (simp add: cmdbuf4_def comp_def map_replicate_const del: upt_Suc)
  show ?thesis
    using paste write_buf frames_paste frames_write_buf lengths by simp
qed


section \<open>Copy and paste\<close>

text \<open>
  C6. Over the device model, for every initial memory state (and every buffer
  content before the copy): \<open>eeprom_copy\<close> into a buffer followed immediately by
  \<open>eeprom_paste\<close> from that buffer leaves the word stored at every address unchanged.
\<close>

theorem copy_then_paste:
  "cells (dev (eeprom_paste (fst (eeprom_copy buf st)) (snd (eeprom_copy buf st))))
     = cells (dev st)"
proof -
  let ?st1 = "st\<lparr>dump_flag := 1\<rparr>"
  let ?image = "fst (copy_loop 0 buf ?st1)"
  let ?st2 = "snd (copy_loop 0 buf ?st1)"
  have copy: "eeprom_copy buf st = (?image, ?st2\<lparr>dump_flag := 0\<rparr>)"
    by (simp add: eeprom_copy_def Let_def split_beta)
  have kept: "cells (dev ?st2) = cells (dev st)"
    and image: "\<forall>k. unat (0 :: u16) \<le> k \<and> k < 1024 \<longrightarrow> ?image k = cells (dev st) (of_nat k)"
    using copy_loop_image [of 0 buf ?st1] by simp_all
  have "cells (dev (paste_loop 0 ?image (?st2\<lparr>dump_flag := 0\<rparr>)))
          = cells (dev (?st2\<lparr>dump_flag := 0\<rparr>))"
    by (rule paste_loop_image) (use image kept in simp)
  then show ?thesis
    by (simp add: copy eeprom_paste_def kept)
qed


section \<open>Strings\<close>

text \<open>
  C4, on a concrete run. On a device with every cell erased, \<open>eeprom_write_string\<close> of
  the two-character string \<open>"ab"\<close> at address 0 writes the single word \<open>0x6162\<close> and no
  terminator; \<open>eeprom_read_string\<close> at address 0 with \<open>max_len = 8\<close> then returns
  \<open>"ab"\<close> followed by five bytes \<open>0xFF\<close> read from the cells behind it. For the
  three-character string \<open>"abc"\<close> the loop of \<open>eeprom_write_string\<close> steps over the
  terminator and reads outside the array.
\<close>

theorem write_read_string_even_length:
  "eeprom_write_string 0 [0x61, 0x62, 0] (init_state erased_device)
     = Inr (eeprom_write 0 0x6162 (init_state erased_device))
   \<and> c_string 8 (chars (fst (eeprom_read_string 0 (new_strbuf (\<lambda>i. 0)) 8
                               (eeprom_write 0 0x6162 (init_state erased_device)))))
     = [0x61, 0x62, 0xFF, 0xFF, 0xFF, 0xFF, 0xFF]
   \<and> eeprom_write_string 0 [0x61, 0x62, 0x63, 0] (init_state erased_device) = Inl OutOfBounds"
proof (intro conjI)
  show "eeprom_write_string 0 [0x61, 0x62, 0] (init_state erased_device)
     = Inr (eeprom_write 0 0x6162 (init_state erased_device))"
    by (simp add: eeprom_write_string_def write_string_loop.simps pack_word_def)
  show "c_string 8 (chars (fst (eeprom_read_string 0 (new_strbuf (\<lambda>i. 0)) 8
                               (eeprom_write 0 0x6162 (init_state erased_device)))))
     = [0x61, 0x62, 0xFF, 0xFF, 0xFF, 0xFF, 0xFF]"
    by (simp add: eeprom_read_string_def read_string_loop.simps c_string_def new_strbuf_def
        store_char_def init_state_def erased_device_def Let_def split_beta upt_rec)
  show "eeprom_write_string 0 [0x61, 0x62, 0x63, 0] (init_state erased_device) = Inl OutOfBounds"
    by (simp add: eeprom_write_string_def write_string_loop.simps pack_word_def)
qed

text \<open>
  C8. \<open>eeprom_read_string\<close> needs \<open>max_len \<ge> 1\<close>. With \<open>max_len = 0\<close> the loop bound
  \<open>max_len - 1\<close> is \<open>0xFFFFFFFF\<close>; the loop is entered and stores at index 0, and the
  terminating zero is stored at an index of at least 1: every store is outside a buffer
  of length 0. With \<open>max_len \<ge> 1\<close>, every store into \<open>str\<close> is at an index below
  \<open>max_len\<close>.
\<close>

theorem read_string_store_bounds:
  "eeprom_read_string start_addr str 0 st =
     (let (i, str, st) = read_string_loop 0xFFFFFFFF 0 start_addr str st
      in (store_char i 0 str, st))
   \<and> fst (hd (stores (fst (eeprom_read_string start_addr (new_strbuf cs) 0 st)))) = 0
   \<and> snd (last (stores (fst (eeprom_read_string start_addr (new_strbuf cs) 0 st)))) = 0
   \<and> 1 \<le> fst (last (stores (fst (eeprom_read_string start_addr (new_strbuf cs) 0 st))))
   \<and> (1 \<le> max_len \<longrightarrow>
        list_all (\<lambda>s. fst s < max_len)
          (stores (fst (eeprom_read_string start_addr (new_strbuf cs) max_len st))))"
proof -
  have result: "stores (fst (eeprom_read_string start_addr str n st))
      = stores (fst (snd (read_string_loop (n - 1) 0 start_addr str st)))
        @ [(fst (read_string_loop (n - 1) 0 start_addr str st), 0)]" for str n
    by (simp add: eeprom_read_string_def split_beta store_char_def)
  have bounded: "list_all (\<lambda>s. fst s < max_len)
          (stores (fst (eeprom_read_string start_addr (new_strbuf cs) max_len st)))"
    if "1 \<le> max_len"
  proof -
    from that have "max_len \<noteq> 0"
      by auto
    then have below: "max_len - 1 < max_len"
      by (rule decrement_less)
    obtain new where new:
      "stores (fst (snd (read_string_loop (max_len - 1) 0 start_addr (new_strbuf cs) st)))
         = stores (new_strbuf cs) @ new"
      "list_all (\<lambda>s. fst s < max_len - 1) new"
      using read_string_loop_stores [of "max_len - 1" 0 start_addr "new_strbuf cs" st] by blast
    have "list_all (\<lambda>s. fst s < max_len) new"
      using new(2) below by (auto simp: list_all_iff)
    moreover have "fst (read_string_loop (max_len - 1) 0 start_addr (new_strbuf cs) st) < max_len"
      using read_string_loop_index [of 0 "max_len - 1" start_addr "new_strbuf cs" st] below
      by auto
    ultimately show ?thesis
      by (simp add: result new(1))
  qed
  let ?body = "read_string_body (- 1) 0 start_addr (new_strbuf cs) st"
  have enter: "(0 :: u32) < - 1"
    by (simp add: word_gt_0)
  obtain new where first:
    "stores (fst ?body) = stores (new_strbuf cs) @ (0, read_string_hi start_addr st) # new"
    using read_string_body_stores [OF enter, of start_addr "new_strbuf cs" st] by blast
  have index: "snd ?body = 2"
    by (simp add: read_string_body_def one_less_minus_one)
  have "\<exists>more. stores (fst (snd (read_string_loop (- 1) 0 start_addr (new_strbuf cs) st)))
           = (0, read_string_hi start_addr st) # more
         \<and> 2 \<le> fst (read_string_loop (- 1) 0 start_addr (new_strbuf cs) st)"
  proof (cases "read_string_hi start_addr st = 0 \<or> read_string_lo start_addr st = 0")
    case True
    then show ?thesis
      using first index by (simp add: read_string_loop_iter [OF enter])
  next
    case False
    obtain more where "stores (fst (snd (read_string_loop (- 1) (snd ?body) (start_addr + 1)
        (fst ?body) (snd (eeprom_read start_addr st))))) = stores (fst ?body) @ more"
      using read_string_loop_stores [of "- 1" "snd ?body" "start_addr + 1" "fst ?body"
          "snd (eeprom_read start_addr st)"] by blast
    moreover have "snd ?body \<le> fst (read_string_loop (- 1) (snd ?body) (start_addr + 1)
        (fst ?body) (snd (eeprom_read start_addr st)))"
      using read_string_loop_index [of "snd ?body" "- 1" "start_addr + 1" "fst ?body"
          "snd (eeprom_read start_addr st)"] by (simp add: index)
    ultimately show ?thesis
      using False first index by (simp add: read_string_loop_iter [OF enter])
  qed
  then obtain more where zero:
    "stores (fst (snd (read_string_loop (- 1) 0 start_addr (new_strbuf cs) st)))
       = (0, read_string_hi start_addr st) # more"
    "2 \<le> fst (read_string_loop (- 1) 0 start_addr (new_strbuf cs) st)"
    by blast
  have "1 \<le> fst (read_string_loop (- 1) 0 start_addr (new_strbuf cs) st)"
    using zero(2) by (simp add: word_le_nat_alt)
  then have stores_outside:
    "fst (hd (stores (fst (eeprom_read_string start_addr (new_strbuf cs) 0 st)))) = 0
     \<and> snd (last (stores (fst (eeprom_read_string start_addr (new_strbuf cs) 0 st)))) = 0
     \<and> 1 \<le> fst (last (stores (fst (eeprom_read_string start_addr (new_strbuf cs) 0 st))))
     \<and> (1 \<le> max_len \<longrightarrow>
          list_all (\<lambda>s. fst s < max_len)
            (stores (fst (eeprom_read_string start_addr (new_strbuf cs) max_len st))))"
    using bounded by (simp add: result zero(1))
  have underflow: "eeprom_read_string start_addr str 0 st =
     (let (i, str, st) = read_string_loop 0xFFFFFFFF 0 start_addr str st
      in (store_char i 0 str, st))"
    unfolding eeprom_read_string_def minus_one_u32 [symmetric] by simp
  show ?thesis
    by (rule conjI [OF underflow stores_outside])
qed

text \<open>The theorem at \<open>max_len = 8\<close> on an erased device: the stores go to indices 0 to 7.\<close>

theorem read_string_store_bounds_witness:
  "(1 :: u32) \<le> 8
   \<and> list_all (\<lambda>s. fst s < 8)
        (stores (fst (eeprom_read_string 0 (new_strbuf (\<lambda>i. 0)) 8 (init_state erased_device))))
   \<and> map fst (stores (fst (eeprom_read_string 0 (new_strbuf (\<lambda>i. 0)) 8
          (init_state erased_device)))) = [0, 1, 2, 3, 4, 5, 6, 7]"
proof -
  have h: "(1 :: u32) \<le> 8"
    by simp
  have "list_all (\<lambda>s. fst s < 8)
        (stores (fst (eeprom_read_string 0 (new_strbuf (\<lambda>i. 0)) 8 (init_state erased_device))))"
    by (rule read_string_store_bounds [where start_addr = 0 and cs = "\<lambda>i. 0"
            and st = "init_state erased_device" and max_len = 8,
          THEN conjunct2, THEN conjunct2, THEN conjunct2, THEN conjunct2, THEN mp, OF h])
  moreover have "map fst (stores (fst (eeprom_read_string 0 (new_strbuf (\<lambda>i. 0)) 8
          (init_state erased_device)))) = [0, 1, 2, 3, 4, 5, 6, 7]"
    by (simp add: eeprom_read_string_def read_string_loop.simps new_strbuf_def
        store_char_def init_state_def erased_device_def Let_def split_beta)
  ultimately show ?thesis
    using h by (intro conjI)
qed

section \<open>The dump flag\<close>

text \<open>
  C9. \<open>dump_flag\<close> is 0 at program start; a call of a public operation returns with
  \<open>dump_flag\<close> as it found it, except \<open>eeprom_dump\<close> and \<open>eeprom_copy\<close>, which return
  with it at 0; so it is 0 at the entry and at the exit of every call of a program.
  From every state that such a program reaches, \<open>eeprom_read\<close> brackets its own
  transfer: a chip-select deassert and assert before the command, and again after the
  response. So does every read that \<open>eeprom_read_string\<close> makes from such a state, the
  one caller of \<open>eeprom_read\<close> besides \<open>eeprom_dump\<close> and \<open>eeprom_copy\<close>: its effects
  are those of bracketed reads at consecutive addresses, and nothing else. The reads
  inside \<open>eeprom_dump\<close> and \<open>eeprom_copy\<close>, made with the flag set, add no chip-select
  change of their own to the deassert and assert their loop makes before each of them.
\<close>

theorem dump_flag_invariant:
  "dump_flag (init_state d) = 0
   \<and> (exec c st = Inr st' \<longrightarrow> dump_flag st' = (if scans_memory c then 0 else dump_flag st))
   \<and> (run cs (init_state d) = Inr stn \<longrightarrow>
        dump_flag stn = 0
        \<and> emitted stn (snd (eeprom_read addr stn)) =
            [GpioPut False, Delay250ns, GpioPut True, Delay250ns,
             SpiWrite (cmdbuf2 (read_cmd addr)), SpiRead 3,
             GpioPut False, Delay250ns, GpioPut True, Delay250ns]
        \<and> (\<exists>n. emitted stn (snd (eeprom_read_string start_addr str max_len stn)) =
              concat (map (\<lambda>k. [GpioPut False, Delay250ns, GpioPut True, Delay250ns,
                                 SpiWrite (cmdbuf2 (read_cmd (start_addr + of_nat k))), SpiRead 3,
                                 GpioPut False, Delay250ns, GpioPut True, Delay250ns])
                          [0..<n])))
   \<and> emitted st (eeprom_dump st) =
        concat (map (\<lambda>k. [GpioPut False, Delay250ns, GpioPut True, Delay250ns,
                           SpiWrite (cmdbuf2 (read_cmd (of_nat k))), SpiRead 3]) [0..<1024])
   \<and> emitted st (snd (eeprom_copy eeprom_buffer st)) =
        concat (map (\<lambda>k. [GpioPut False, Delay250ns, GpioPut True, Delay250ns,
                           SpiWrite (cmdbuf2 (read_cmd (of_nat k))), SpiRead 3]) [0..<1024])"
proof (intro conjI impI)
  show "dump_flag (init_state d) = 0"
    by (simp add: init_state_def)
  show "dump_flag st' = (if scans_memory c then 0 else dump_flag st)" if "exec c st = Inr st'"
    using that by (rule dump_flag_exec)
  show reached: "dump_flag stn = 0" if "run cs (init_state d) = Inr stn"
    using that by (rule dump_flag_run) (simp add: init_state_def)
  show "emitted stn (snd (eeprom_read addr stn)) =
            [GpioPut False, Delay250ns, GpioPut True, Delay250ns,
             SpiWrite (cmdbuf2 (read_cmd addr)), SpiRead 3,
             GpioPut False, Delay250ns, GpioPut True, Delay250ns]"
    if "run cs (init_state d) = Inr stn"
    using reached [OF that] by (simp add: trace_eeprom_read)
  show "\<exists>n. emitted stn (snd (eeprom_read_string start_addr str max_len stn)) =
              concat (map (\<lambda>k. [GpioPut False, Delay250ns, GpioPut True, Delay250ns,
                                 SpiWrite (cmdbuf2 (read_cmd (start_addr + of_nat k))), SpiRead 3,
                                 GpioPut False, Delay250ns, GpioPut True, Delay250ns])
                          [0..<n])"
    if "run cs (init_state d) = Inr stn"
    using reached [OF that] by (rule trace_eeprom_read_string)
  show "emitted st (eeprom_dump st) =
        concat (map (\<lambda>k. [GpioPut False, Delay250ns, GpioPut True, Delay250ns,
                           SpiWrite (cmdbuf2 (read_cmd (of_nat k))), SpiRead 3]) [0..<1024])"
    using trace_dump_loop [of "st\<lparr>dump_flag := 1\<rparr>" 0]
    by (simp add: eeprom_dump_def Let_def)
  show "emitted st (snd (eeprom_copy eeprom_buffer st)) =
        concat (map (\<lambda>k. [GpioPut False, Delay250ns, GpioPut True, Delay250ns,
                           SpiWrite (cmdbuf2 (read_cmd (of_nat k))), SpiRead 3]) [0..<1024])"
    using trace_copy_loop [of "st\<lparr>dump_flag := 1\<rparr>" 0 eeprom_buffer]
    by (simp add: eeprom_copy_def Let_def split_beta)
qed

text \<open>
  The theorem on a program of nine calls from an erased device, with a dump, a copy
  and a string read among them, and on the read that follows the copy.
\<close>

theorem dump_flag_invariant_witness:
  "exec Dump (init_state erased_device) = Inr (eeprom_dump (init_state erased_device))
   \<and> dump_flag (eeprom_dump (init_state erased_device)) = 0
   \<and> run [WriteEnable, Write 0x10 0xDEAD, Dump, Copy (\<lambda>i. 0), Read 0x10,
           WriteString 0x20 [0x48, 0x69, 0], ReadString 0x20 (\<lambda>i. 0) 4, Erase 0x10,
           WriteDisable] (init_state erased_device)
     = Inr (eeprom_write_disable (eeprom_erase 0x10
         (snd (eeprom_read_string 0x20 (new_strbuf (\<lambda>i. 0)) 4 (eeprom_write 0x20 0x4869
           (snd (eeprom_read 0x10 (snd (eeprom_copy (\<lambda>i. 0) (eeprom_dump
             (eeprom_write 0x10 0xDEAD (eeprom_write_enable (init_state erased_device)))))))))))))
   \<and> dump_flag (eeprom_write_disable (eeprom_erase 0x10
         (snd (eeprom_read_string 0x20 (new_strbuf (\<lambda>i. 0)) 4 (eeprom_write 0x20 0x4869
           (snd (eeprom_read 0x10 (snd (eeprom_copy (\<lambda>i. 0) (eeprom_dump
             (eeprom_write 0x10 0xDEAD (eeprom_write_enable (init_state erased_device))))))))))))) = 0
   \<and> emitted (snd (eeprom_copy (\<lambda>i. 0) (eeprom_dump
               (eeprom_write 0x10 0xDEAD (eeprom_write_enable (init_state erased_device))))))
         (snd (eeprom_read 0x10 (snd (eeprom_copy (\<lambda>i. 0) (eeprom_dump
               (eeprom_write 0x10 0xDEAD (eeprom_write_enable (init_state erased_device))))))))
       = [GpioPut False, Delay250ns, GpioPut True, Delay250ns,
          SpiWrite (cmdbuf2 (read_cmd 0x10)), SpiRead 3,
          GpioPut False, Delay250ns, GpioPut True, Delay250ns]"
proof -
  let ?s0 = "init_state erased_device"
  let ?s4 = "snd (eeprom_copy (\<lambda>i. 0) (eeprom_dump
               (eeprom_write 0x10 0xDEAD (eeprom_write_enable ?s0))))"
  let ?sn = "eeprom_write_disable (eeprom_erase 0x10
         (snd (eeprom_read_string 0x20 (new_strbuf (\<lambda>i. 0)) 4 (eeprom_write 0x20 0x4869
           (snd (eeprom_read 0x10 ?s4))))))"
  let ?cs = "[WriteEnable, Write 0x10 0xDEAD, Dump, Copy (\<lambda>i. 0), Read 0x10,
           WriteString 0x20 [0x48, 0x69, 0], ReadString 0x20 (\<lambda>i. 0) 4, Erase 0x10,
           WriteDisable]"
  let ?cs4 = "[WriteEnable, Write 0x10 0xDEAD, Dump, Copy (\<lambda>i. 0)]"
  have step: "exec Dump ?s0 = Inr (eeprom_dump ?s0)"
    by simp
  have prog: "run ?cs ?s0 = Inr ?sn"
    by (simp add: eeprom_write_string_def write_string_loop.simps pack_word_def)
  have prefix: "run ?cs4 ?s0 = Inr ?s4"
    by simp
  have "dump_flag (eeprom_dump ?s0) = (if scans_memory Dump then 0 else dump_flag ?s0)"
    by (rule dump_flag_invariant [where c = Dump and st = ?s0 and st' = "eeprom_dump ?s0",
          THEN conjunct2, THEN conjunct1, THEN mp, OF step])
  then have one: "dump_flag (eeprom_dump ?s0) = 0"
    by simp
  have all: "dump_flag ?sn = 0"
    by (rule dump_flag_invariant [where d = erased_device and cs = ?cs and stn = ?sn,
          THEN conjunct2, THEN conjunct2, THEN conjunct1, THEN mp, OF prog, THEN conjunct1])
  have bracket: "emitted ?s4 (snd (eeprom_read 0x10 ?s4)) =
       [GpioPut False, Delay250ns, GpioPut True, Delay250ns,
        SpiWrite (cmdbuf2 (read_cmd 0x10)), SpiRead 3,
        GpioPut False, Delay250ns, GpioPut True, Delay250ns]"
    by (rule dump_flag_invariant [where d = erased_device and cs = ?cs4 and stn = ?s4
          and addr = "0x10",
          THEN conjunct2, THEN conjunct2, THEN conjunct1, THEN mp, OF prefix,
          THEN conjunct2, THEN conjunct1])
  show ?thesis
    using step one prog all bracket by (intro conjI)
qed

end
